theory Spec2Isabelle
  imports
    Main
    "HOL-Library.AList"
    "HOL-Library.Sublist"
    "HOL-Library.Char_ord"
    "HOL-Library.List_Lexorder"
    "HOL-Library.Log_Nat"
begin

section \<open>Python values used by the assistant\<close>

text \<open>
  The assistant (\<^verbatim>\<open>src/ai_assistant.py\<close>) is glue code between a chat interface, a task
  tracker and an inference provider. The embedding below follows the Python source
  function by function. Texts are lists of characters with code points 0..255; a
  dictionary read with \<^verbatim>\<open>d.get(k, default)\<close> becomes an optional field, \<open>None\<close> standing
  for an absent key; an exception that a \<^verbatim>\<open>try\<close> block can see is a value of type \<open>exn\<close>.
\<close>

datatype exn = ConnectionError | MalformedResponse | TrackerError | KeyError | UnboundLocalError

text \<open>\<^verbatim>\<open>try: body except Exception as e: handler\<close> on a body that has already been run.\<close>

definition try_except :: "exn + 'a \<Rightarrow> (exn \<Rightarrow> exn + 'a) \<Rightarrow> exn + 'a" where
  "try_except body handler = (case body of Inl e \<Rightarrow> handler e | Inr v \<Rightarrow> Inr v)"

text \<open>\<^verbatim>\<open>d.get(key, default)\<close> on an optional field.\<close>

definition dict_get :: "'a option \<Rightarrow> 'a \<Rightarrow> 'a" where
  "dict_get field dflt = (case field of None \<Rightarrow> dflt | Some v \<Rightarrow> v)"

text \<open>Truthiness of an optional text: \<open>None\<close> and the empty text are false.\<close>

definition truthy :: "string option \<Rightarrow> bool" where
  "truthy v = (case v of None \<Rightarrow> False | Some s \<Rightarrow> s \<noteq> [])"

text \<open>\<^verbatim>\<open>needle in hay\<close> on texts: \<open>needle\<close> occurs as a contiguous piece of \<open>hay\<close>.\<close>

fun contains :: "string \<Rightarrow> string \<Rightarrow> bool" where
  "contains needle [] = (needle = [])"
| "contains needle (c # cs) = (prefix needle (c # cs) \<or> contains needle cs)"

text \<open>
  White space as \<^verbatim>\<open>str.strip\<close>, \<^verbatim>\<open>str.isspace\<close> and the pattern class \<^verbatim>\<open>\s\<close> see it on code
  points below 256: 9..13, 28..32, 133 and 160.
\<close>

definition is_space :: "char \<Rightarrow> bool" where
  "is_space c = (let n = (of_char c :: nat)
     in (9 \<le> n \<and> n \<le> 13) \<or> (28 \<le> n \<and> n \<le> 32) \<or> n = 133 \<or> n = 160)"

definition strip :: "string \<Rightarrow> string" where
  "strip s = rev (dropWhile is_space (rev (dropWhile is_space s)))"

text \<open>\<^verbatim>\<open>str.lower\<close> on code points below 256: A..Z and the Latin-1 capitals move up by 32.\<close>

definition lower_char :: "char \<Rightarrow> char" where
  "lower_char c = (let n = (of_char c :: nat)
     in if (65 \<le> n \<and> n \<le> 90) \<or> (192 \<le> n \<and> n \<le> 222 \<and> n \<noteq> 215)
        then char_of (n + 32) else c)"

definition lower :: "string \<Rightarrow> string" where
  "lower s = map lower_char s"

text \<open>\<^verbatim>\<open>xs[:n]\<close>: a negative bound counts from the end.\<close>

definition py_slice_to :: "'a list \<Rightarrow> int \<Rightarrow> 'a list" where
  "py_slice_to xs n = (if 0 \<le> n then take (nat n) xs else take (length xs - nat (- n)) xs)"

definition nl :: string where
  "nl = [CHR 0x0A]"

definition ind :: "nat \<Rightarrow> string" where
  "ind n = replicate n (CHR '' '')"

section \<open>External collaborators\<close>

text \<open>
  A task as the tracking service returns it: \<^verbatim>\<open>gid\<close>, \<^verbatim>\<open>name\<close>, \<^verbatim>\<open>completed\<close>, \<^verbatim>\<open>notes\<close>,
  \<^verbatim>\<open>due_on\<close> and \<^verbatim>\<open>assignee\<close> (kept as the assignee's name). \<^verbatim>\<open>completed\<close> is only ever read
  as \<^verbatim>\<open>task.get('completed', False)\<close>, so an absent flag is \<open>False\<close>.
\<close>

record task =
  t_gid :: "string option"
  t_name :: "string option"
  t_completed :: bool
  t_notes :: "string option"
  t_due_on :: "string option"
  t_assignee :: "string option"

record user =
  u_gid :: string
  u_name :: string

text \<open>
  What \<^verbatim>\<open>requests.post\<close> does: it raises, or it returns a response with a status code; for
  the response, the text at \<^verbatim>\<open>json()['choices'][0]['message']['content']\<close> when the body has
  that shape (\<open>None\<close> when reading it raises).
\<close>

datatype http_result = Transport_error | Response nat "string option"

text \<open>The patch that \<^verbatim>\<open>bulk_assign_tasks\<close> sends: the assignee and, when given, the due date.\<close>

record update_data =
  d_assignee :: string
  d_due_on :: "string option"

text \<open>
  The world outside the process. Calls are answered by the number of the request within
  one run (the position of the task in the loop that issues it), so that two equal
  requests may get different answers.
\<close>

record world =
  get_tasks_for_project :: "exn + task list"
  get_tasks_due_before :: "nat \<Rightarrow> exn + task list"
  find_all :: "exn + user list"
  post :: "nat \<Rightarrow> string \<Rightarrow> http_result"
  update_notes :: "nat \<Rightarrow> string option \<Rightarrow> string \<Rightarrow> exn option"
  update_assignee :: "nat \<Rightarrow> string \<Rightarrow> update_data \<Rightarrow> exn option"
  path_txt :: "string option"
  today :: string
  ASSISTANT_NAME :: string
  DOMAIN_KNOWLEDGE :: string

section \<open>Advisory query\<close>

definition ask_prompt :: "string \<Rightarrow> string \<Rightarrow> string" where
  "ask_prompt knowledge question =
     ''You are an expert consultant on the specific processes described in the following context.'' @ nl
     @ ind 12 @ nl
     @ ind 12 @ ''CONTEXT FROM PATH.TXT:'' @ nl
     @ ind 12 @ take 3000 knowledge @ ''... (abbreviated for prompt length)'' @ nl
     @ ind 12 @ nl
     @ ind 12 @ ''Please answer this question about implementing these processes:'' @ nl
     @ ind 12 @ question @ nl
     @ ind 12 @ nl
     @ ind 12 @ ''Provide a comprehensive but practical answer based on the knowledge provided.'' @ nl
     @ ind 12 @ ''Reference specific sections of the implementation path where relevant.'' @ nl
     @ ind 12"

text \<open>The body of the \<^verbatim>\<open>try\<close> block of \<^verbatim>\<open>ask_question\<close>.\<close>

definition ask_question_try :: "world \<Rightarrow> string \<Rightarrow> exn + string option" where
  "ask_question_try w question =
     (case post w 0 (ask_prompt (DOMAIN_KNOWLEDGE w) question) of
        Transport_error \<Rightarrow> Inl ConnectionError
      | Response status_code body \<Rightarrow>
          if status_code = 200
          then (case body of
                  None \<Rightarrow> Inl MalformedResponse
                | Some content \<Rightarrow> Inr (Some (strip content)))
          else Inr None)"

definition ask_question :: "world \<Rightarrow> string \<Rightarrow> exn + string option" where
  "ask_question w question = try_except (ask_question_try w question) (\<lambda>e. Inr None)"

section \<open>Task enrichment\<close>

record results =
  processed :: nat
  updated :: nat
  skipped :: nat
  failed :: nat

text \<open>
  The state of the loop: the counters and the \<^verbatim>\<open>update_task\<close> calls issued so far, each with
  the task id and the notes it sends.
\<close>

record enrich_state =
  counts :: results
  patches :: "(string option \<times> string) list"

definition enrich_prompt :: "string \<Rightarrow> string \<Rightarrow> string" where
  "enrich_prompt task_name path_content =
     ''As an expert on the processes described in the implementation path, write a detailed description for the following task:'' @ nl
     @ ind 20 @ nl
     @ ind 20 @ ''TASK NAME: '' @ task_name @ nl
     @ ind 20 @ nl
     @ ind 20 @ ''IMPLEMENTATION CONTEXT:'' @ nl
     @ ind 20 @ take 1500 path_content @ ''... (abbreviated for prompt length)'' @ nl
     @ ind 20 @ nl
     @ ind 20 @ ''Your description should include:'' @ nl
     @ ind 20 @ ''1. The purpose and importance of this task in the implementation'' @ nl
     @ ind 20 @ ''2. Key requirements related to this task'' @ nl
     @ ind 20 @ ''3. Implementation guidance (how to complete this task effectively)'' @ nl
     @ ind 20 @ ''4. Common pitfalls to avoid'' @ nl
     @ ind 20 @ ''5. How this task connects to other parts of the system'' @ nl
     @ ind 20 @ ''6. How this task fits into the implementation path described above'' @ nl
     @ ind 20 @ nl
     @ ind 20 @ ''Format the description in clear paragraphs with appropriate headings.'' @ nl
     @ ind 20"

definition formatted_description :: "world \<Rightarrow> string \<Rightarrow> string \<Rightarrow> string" where
  "formatted_description w description task_name =
     nl @ ''# TASK DESCRIPTION'' @ nl
     @ ''Generated by '' @ ASSISTANT_NAME w @ '' on '' @ today w @ nl
     @ nl
     @ description @ nl
     @ nl
     @ ''---'' @ nl
     @ ''Original task: '' @ task_name @ nl
     @ ind 24"

text \<open>The test that sends a task down the skip path.\<close>

definition already_enriched :: "task \<Rightarrow> bool" where
  "already_enriched t =
     (let existing_notes = dict_get (t_notes t) ''''
      in length existing_notes > 200 \<and> contains ''TASK DESCRIPTION'' existing_notes)"

definition bump_processed :: "enrich_state \<Rightarrow> enrich_state" where
  "bump_processed st = st\<lparr>counts := (counts st)\<lparr>processed := processed (counts st) + 1\<rparr>\<rparr>"

definition bump_updated :: "enrich_state \<Rightarrow> enrich_state" where
  "bump_updated st = st\<lparr>counts := (counts st)\<lparr>updated := updated (counts st) + 1\<rparr>\<rparr>"

definition bump_skipped :: "enrich_state \<Rightarrow> enrich_state" where
  "bump_skipped st = st\<lparr>counts := (counts st)\<lparr>skipped := skipped (counts st) + 1\<rparr>\<rparr>"

definition bump_failed :: "enrich_state \<Rightarrow> enrich_state" where
  "bump_failed st = st\<lparr>counts := (counts st)\<lparr>failed := failed (counts st) + 1\<rparr>\<rparr>"

text \<open>
  The body of the inner \<^verbatim>\<open>try\<close> block for the task at position \<open>i\<close>. An exception leaves
  with the state reached when it was raised.
\<close>

definition enrich_task_try ::
  "world \<Rightarrow> string \<Rightarrow> nat \<Rightarrow> task \<Rightarrow> enrich_state \<Rightarrow> (exn \<times> enrich_state) + enrich_state" where
  "enrich_task_try w path_content i t st =
     (let task_name = dict_get (t_name t) ''Unnamed task'';
          task_id = t_gid t;
          existing_notes = dict_get (t_notes t) ''''
      in if length existing_notes > 200 \<and> contains ''TASK DESCRIPTION'' existing_notes
         then Inr (bump_skipped st)
         else (case post w i (enrich_prompt task_name path_content) of
                 Transport_error \<Rightarrow> Inl (ConnectionError, st)
               | Response status_code body \<Rightarrow>
                   if status_code = 200
                   then (case body of
                           None \<Rightarrow> Inl (MalformedResponse, st)
                         | Some content \<Rightarrow>
                             let description = strip content;
                                 formatted = formatted_description w description task_name;
                                 updated_notes =
                                   (if existing_notes = [] then formatted
                                    else existing_notes @ nl @ nl @ formatted);
                                 st1 = st\<lparr>patches := patches st @ [(task_id, updated_notes)]\<rparr>
                             in (case update_notes w i task_id updated_notes of
                                   Some e \<Rightarrow> Inl (e, st1)
                                 | None \<Rightarrow> Inr (bump_processed (bump_updated st1))))
                   else Inr (bump_processed (bump_failed st))))"

definition enrich_task :: "world \<Rightarrow> string \<Rightarrow> nat \<Rightarrow> task \<Rightarrow> enrich_state \<Rightarrow> enrich_state" where
  "enrich_task w path_content i t st =
     (case enrich_task_try w path_content i t st of
        Inl (e, st') \<Rightarrow> bump_failed st'
      | Inr st' \<Rightarrow> st')"

text \<open>\<^verbatim>\<open>for i, task in enumerate(tasks_to_process)\<close>, started at position \<open>i\<close>.\<close>

fun enrich_loop :: "world \<Rightarrow> string \<Rightarrow> nat \<Rightarrow> task list \<Rightarrow> enrich_state \<Rightarrow> enrich_state" where
  "enrich_loop w path_content i [] st = st"
| "enrich_loop w path_content i (t # ts) st =
     enrich_loop w path_content (Suc i) ts (enrich_task w path_content i t st)"

definition tasks_to_process :: "int option \<Rightarrow> task list \<Rightarrow> task list" where
  "tasks_to_process limit tasks =
     (let incomplete_tasks = filter (\<lambda>t. \<not> t_completed t) tasks
      in case limit of
           None \<Rightarrow> incomplete_tasks
         | Some n \<Rightarrow> if n \<noteq> 0 then py_slice_to incomplete_tasks n else incomplete_tasks)"

text \<open>
  What a run of \<^verbatim>\<open>enrich_task_descriptions\<close> leaves behind: the value it returns to its
  caller (\<open>None\<close> is Python's \<^verbatim>\<open>None\<close>), the counters printed under
  \<^verbatim>\<open>--- TASK ENRICHMENT SUMMARY ---\<close> (\<open>None\<close> when the summary is not reached) and the
  \<^verbatim>\<open>update_task\<close> calls issued.
\<close>

record enrich_outcome =
  returned :: "results option"
  summary :: "results option"
  issued :: "(string option \<times> string) list"

definition enrich_task_descriptions_try :: "world \<Rightarrow> int option \<Rightarrow> exn + enrich_outcome" where
  "enrich_task_descriptions_try w limit =
     (let path_content = dict_get (path_txt w) ''''
      in case get_tasks_for_project w of
           Inl e \<Rightarrow> Inl e
         | Inr tasks \<Rightarrow>
             let st0 = \<lparr>counts = \<lparr>processed = 0, updated = 0, skipped = 0, failed = 0\<rparr>,
                        patches = []\<rparr>;
                 st = enrich_loop w path_content 0 (tasks_to_process limit tasks) st0
             in Inr \<lparr>returned = None, summary = Some (counts st), issued = patches st\<rparr>)"

definition enrich_task_descriptions :: "world \<Rightarrow> int option \<Rightarrow> exn + enrich_outcome" where
  "enrich_task_descriptions w limit =
     try_except (enrich_task_descriptions_try w limit)
       (\<lambda>e. Inr \<lparr>returned = None, summary = None, issued = []\<rparr>)"

text \<open>
  The provider failures of the specification: the call raises a transport error, or the
  answer has a status other than 200. \<open>failing_rounds\<close> lists the rounds of a batch,
  numbered from \<open>i\<close>, that meet one on a task that is not skipped.
\<close>

definition provider_failure :: "http_result \<Rightarrow> bool" where
  "provider_failure r =
     (case r of Transport_error \<Rightarrow> True | Response status_code body \<Rightarrow> status_code \<noteq> 200)"

definition failing_rounds :: "world \<Rightarrow> string \<Rightarrow> nat \<Rightarrow> task list \<Rightarrow> (nat \<times> task) list" where
  "failing_rounds w path_content i ts =
     filter (\<lambda>(j, t). \<not> already_enriched t
               \<and> provider_failure
                   (post w j (enrich_prompt (dict_get (t_name t) ''Unnamed task'') path_content)))
       (enumerate i ts)"

section \<open>Upcoming tasks\<close>

definition get_upcoming_tasks :: "world \<Rightarrow> nat \<Rightarrow> exn + task list" where
  "get_upcoming_tasks w days =
     try_except
       (case get_tasks_due_before w days of
          Inl e \<Rightarrow> Inl e
        | Inr tasks \<Rightarrow> Inr (filter (\<lambda>t. \<not> t_completed t) tasks))
       (\<lambda>e. Inr [])"

section \<open>Bulk reassignment\<close>

record assign_entry =
  e_id :: string
  e_name :: string
  e_error :: "exn option"

record assign_results =
  a_success :: nat
  a_failed :: nat
  a_tasks :: "assign_entry list"

text \<open>
  The state of the update loop: the result dictionary, the \<^verbatim>\<open>update_task\<close> calls issued so
  far and the local variable \<^verbatim>\<open>task_id\<close> (\<open>None\<close> while it is unbound).
\<close>

record assign_state =
  a_results :: assign_results
  a_calls :: "(string \<times> update_data) list"
  a_task_id :: "string option"

text \<open>The search loop: the first user whose lower-cased name contains the lower-cased assignee.\<close>

fun find_assignee :: "string \<Rightarrow> user list \<Rightarrow> string option" where
  "find_assignee assignee [] = None"
| "find_assignee assignee (u # users) =
     (if contains (lower assignee) (lower (u_name u)) then Some (u_gid u)
      else find_assignee assignee users)"

definition assign_task_try ::
  "world \<Rightarrow> update_data \<Rightarrow> nat \<Rightarrow> task \<Rightarrow> assign_state \<Rightarrow> (exn \<times> assign_state) + assign_state" where
  "assign_task_try w data k t st =
     (case t_gid t of
        None \<Rightarrow> Inl (KeyError, st)
      | Some task_id \<Rightarrow>
          let st1 = st\<lparr>a_task_id := Some task_id, a_calls := a_calls st @ [(task_id, data)]\<rparr>
          in (case update_assignee w k task_id data of
                Some e \<Rightarrow> Inl (e, st1)
              | None \<Rightarrow>
                  let r = a_results st1
                  in Inr (st1\<lparr>a_results := r\<lparr>a_success := a_success r + 1,
                       a_tasks := a_tasks r @
                         [\<lparr>e_id = task_id, e_name = dict_get (t_name t) ''Unknown task'',
                           e_error = None\<rparr>]\<rparr>\<rparr>)))"

text \<open>
  One round of the loop. The handler records the failure and then prints
  \<^verbatim>\<open>task.get('name', task_id)\<close>, which reads \<^verbatim>\<open>task_id\<close>: while that variable is unbound the
  handler itself raises.
\<close>

definition assign_task ::
  "world \<Rightarrow> update_data \<Rightarrow> nat \<Rightarrow> task \<Rightarrow> assign_state \<Rightarrow> exn + assign_state" where
  "assign_task w data k t st =
     (case assign_task_try w data k t st of
        Inr st' \<Rightarrow> Inr st'
      | Inl (e, st') \<Rightarrow>
          let r = a_results st';
              st2 = st'\<lparr>a_results := r\<lparr>a_failed := a_failed r + 1,
                      a_tasks := a_tasks r @
                        [\<lparr>e_id = dict_get (t_gid t) ''Unknown'',
                          e_name = dict_get (t_name t) ''Unknown task'',
                          e_error = Some e\<rparr>]\<rparr>\<rparr>
          in (case a_task_id st2 of None \<Rightarrow> Inl UnboundLocalError | Some _ \<Rightarrow> Inr st2))"

fun assign_loop ::
  "world \<Rightarrow> update_data \<Rightarrow> nat \<Rightarrow> task list \<Rightarrow> assign_state \<Rightarrow> exn + assign_state" where
  "assign_loop w data k [] st = Inr st"
| "assign_loop w data k (t # ts) st =
     (case assign_task w data k t st of
        Inl e \<Rightarrow> Inl e
      | Inr st' \<Rightarrow> assign_loop w data (Suc k) ts st')"

text \<open>
  \<^verbatim>\<open>bulk_assign_tasks\<close> has no \<^verbatim>\<open>try\<close> block around the user list or the search: what they
  raise leaves the function. The result pairs the returned dictionary with the
  \<^verbatim>\<open>update_task\<close> calls issued.
\<close>

definition bulk_assign_tasks ::
  "world \<Rightarrow> task list \<Rightarrow> string \<Rightarrow> string option
     \<Rightarrow> exn + (assign_results \<times> (string \<times> update_data) list)" where
  "bulk_assign_tasks w tasks assignee due_on =
     (let results0 = \<lparr>a_success = 0, a_failed = 0, a_tasks = []\<rparr>
      in case find_all w of
           Inl e \<Rightarrow> Inl e
         | Inr users \<Rightarrow>
             (case find_assignee assignee users of
                None \<Rightarrow> Inr (results0, [])
              | Some assignee_gid \<Rightarrow>
                  if assignee_gid = [] then Inr (results0, [])
                  else
                    let data = \<lparr>d_assignee = assignee_gid,
                                 d_due_on = (if truthy due_on then due_on else None)\<rparr>
                    in (case assign_loop w data 0 tasks
                               \<lparr>a_results = results0, a_calls = [], a_task_id = None\<rparr> of
                          Inl e \<Rightarrow> Inl e
                        | Inr st \<Rightarrow> Inr (a_results st, a_calls st))))"

section \<open>Floating point\<close>

text \<open>
  Python's \<^verbatim>\<open>float\<close> is IEEE 754 binary64. A finite float is kept as the rational number it
  denotes; \<open>binary64\<close> rounds a rational to the nearest float, ties to the even
  significand, with 53 significant bits and the least exponent \<open>- 1074\<close> (the values met here
  stay far below the overflow threshold).
\<close>

definition pow2 :: "int \<Rightarrow> rat" where
  "pow2 e = (if 0 \<le> e then 2 ^ nat e else 1 / 2 ^ nat (- e))"

definition round_half_even :: "rat \<Rightarrow> int" where
  "round_half_even x =
     (let f = \<lfloor>x\<rfloor>; d = x - of_int f
      in if d < 1 / 2 then f else if 1 / 2 < d then f + 1 else if even f then f else f + 1)"

text \<open>\<open>ilog2 x\<close> is the integer \<open>k\<close> with \<open>2 ^ k \<le> x < 2 ^ (k + 1)\<close>, for positive \<open>x\<close>.\<close>

definition ilog2 :: "rat \<Rightarrow> int" where
  "ilog2 x = (case quotient_of x of (p, q) \<Rightarrow>
     let d = bitlen p - bitlen q in if pow2 d \<le> x then d else d - 1)"

definition binary64 :: "rat \<Rightarrow> rat" where
  "binary64 x =
     (if x = 0 then 0
      else let e = max (ilog2 \<bar>x\<bar> - 52) (- 1074)
           in of_int (round_half_even (x / pow2 e)) * pow2 e)"

text \<open>\<^verbatim>\<open>a / b\<close> on integers (correctly rounded) for \<open>b \<noteq> 0\<close>, and \<^verbatim>\<open>x * y\<close> on floats.\<close>

definition true_div :: "nat \<Rightarrow> nat \<Rightarrow> rat" where
  "true_div a b = binary64 (of_nat a / of_nat b)"

definition float_mul :: "rat \<Rightarrow> rat \<Rightarrow> rat" where
  "float_mul x y = binary64 (x * y)"

text \<open>
  \<^verbatim>\<open>round(x, ndigits)\<close> on a float: the decimal with \<open>ndigits\<close> places nearest to the exact
  value of \<open>x\<close>, ties to the even digit, read back as a float.
\<close>

definition py_round :: "rat \<Rightarrow> nat \<Rightarrow> rat" where
  "py_round x ndigits = binary64 (of_int (round_half_even (x * 10 ^ ndigits)) / 10 ^ ndigits)"

section \<open>Phase table\<close>

record phase =
  ph_name :: string
  ph_description :: string
  ph_key_activities :: "string list"
  ph_deliverables :: "string list"

definition is_digit :: "char \<Rightarrow> bool" where
  "is_digit c = (let n = (of_char c :: nat) in 48 \<le> n \<and> n \<le> 57)"

text \<open>
  The pattern is \<^verbatim>\<open>PHASE (\d+): (.*?)\s*\(([^)]+)\)\<close>. Its greedy parts are each followed by a
  character outside their class, so a match takes the longest run of each; only the lazy
  group \<^verbatim>\<open>(.*?)\<close> searches, trying the shortest name first.

  \<open>timeline_match\<close> is \<^verbatim>\<open>\s*\(([^)]+)\)\<close> at the start of a text: the third group and the rest.
\<close>

definition timeline_match :: "string \<Rightarrow> (string \<times> string) option" where
  "timeline_match s =
     (case dropWhile is_space s of
        [] \<Rightarrow> None
      | c # s1 \<Rightarrow>
          if c = CHR ''(''
          then (let timeline = takeWhile (\<lambda>x. x \<noteq> CHR '')'') s1;
                    s2 = dropWhile (\<lambda>x. x \<noteq> CHR '')'') s1
                in if timeline \<noteq> [] \<and> s2 \<noteq> [] then Some (timeline, tl s2) else None)
          else None)"

text \<open>
  \<^verbatim>\<open>(.*?)\<close> and what follows it: the name grows by one character other than a line feed
  each time the rest fails to match.
\<close>

fun name_match :: "string \<Rightarrow> (string \<times> string \<times> string) option" where
  "name_match [] =
     (case timeline_match [] of
        Some (timeline, rest) \<Rightarrow> Some ([], timeline, rest)
      | None \<Rightarrow> None)"
| "name_match (c # cs) =
     (case timeline_match (c # cs) of
        Some (timeline, rest) \<Rightarrow> Some ([], timeline, rest)
      | None \<Rightarrow>
          if c = CHR 0x0A then None
          else (case name_match cs of
                  Some (phase_name, timeline, rest) \<Rightarrow> Some (c # phase_name, timeline, rest)
                | None \<Rightarrow> None))"

text \<open>The whole pattern at the start of a text: the three groups and the rest.\<close>

definition match_here :: "string \<Rightarrow> ((string \<times> string \<times> string) \<times> string) option" where
  "match_here s =
     (if prefix ''PHASE '' s
      then (let s1 = drop 6 s;
                phase_num = takeWhile is_digit s1;
                s2 = dropWhile is_digit s1
            in if phase_num \<noteq> [] \<and> prefix '': '' s2
               then (case name_match (drop 2 s2) of
                       Some (phase_name, timeline, rest) \<Rightarrow>
                         Some ((phase_num, phase_name, timeline), rest)
                     | None \<Rightarrow> None)
               else None)
      else None)"

text \<open>
  \<^verbatim>\<open>phase_pattern.findall\<close>: the matches from left to right, each search starting where the
  previous match ended; \<open>skip\<close> counts the characters of that match still to pass.
\<close>

fun findall_from :: "nat \<Rightarrow> string \<Rightarrow> (string \<times> string \<times> string) list" where
  "findall_from skip [] = []"
| "findall_from (Suc skip) (c # cs) = findall_from skip cs"
| "findall_from 0 (c # cs) =
     (case match_here (c # cs) of
        Some (groups, rest) \<Rightarrow> groups # findall_from (length cs - length rest) cs
      | None \<Rightarrow> findall_from 0 cs)"

definition findall :: "string \<Rightarrow> (string \<times> string \<times> string) list" where
  "findall s = findall_from 0 s"

text \<open>
  The loop that fills \<^verbatim>\<open>IMPLEMENTATION_PHASES\<close>; a dictionary keeps its keys in the order
  of their first insertion, as \<open>AList.update\<close> does.
\<close>

definition new_phase :: "string \<Rightarrow> string \<Rightarrow> phase" where
  "new_phase phase_name timeline =
     \<lparr>ph_name = phase_name @ '' ('' @ timeline @ '')'', ph_description = [],
      ph_key_activities = [], ph_deliverables = []\<rparr>"







section \<open>Status aggregation\<close>

record bucket =
  b_total :: nat
  b_completed :: nat

record phase_status =
  p_total :: nat
  p_completed :: nat
  p_percentage :: rat

record status =
  s_total :: nat
  s_completed :: nat
  s_incomplete :: nat
  s_unassigned :: nat
  s_overdue :: nat
  s_percentage :: rat
  s_phases :: "(string \<times> phase_status) list"

definition phase_marker :: "string \<Rightarrow> string" where
  "phase_marker phase_num = ''PHASE '' @ phase_num @ '':''"

text \<open>
  The body of \<^verbatim>\<open>if ... in name or name.startswith(...)\<close>: the bucket is created when
  missing, its total goes up, and its completed count with it for a completed task.
\<close>

definition count_in_phase :: "string \<Rightarrow> task \<Rightarrow> (string \<times> bucket) list \<Rightarrow> (string \<times> bucket) list" where
  "count_in_phase phase_num t phases =
     (let phases1 = (if map_of phases phase_num = None
                     then AList.update phase_num \<lparr>b_total = 0, b_completed = 0\<rparr> phases
                     else phases);
          phases2 = AList.map_entry phase_num (\<lambda>b. b\<lparr>b_total := b_total b + 1\<rparr>) phases1
      in if t_completed t
         then AList.map_entry phase_num (\<lambda>b. b\<lparr>b_completed := b_completed b + 1\<rparr>) phases2
         else phases2)"

text \<open>\<^verbatim>\<open>for phase_num in IMPLEMENTATION_PHASES.keys()\<close> with its \<^verbatim>\<open>break\<close>.\<close>

fun bucket_task :: "string list \<Rightarrow> task \<Rightarrow> (string \<times> bucket) list \<Rightarrow> (string \<times> bucket) list" where
  "bucket_task [] t phases = phases"
| "bucket_task (phase_num # keys) t phases =
     (let name = dict_get (t_name t) []
      in if contains (phase_marker phase_num) name \<or> prefix (phase_marker phase_num) name
         then count_in_phase phase_num t phases
         else bucket_task keys t phases)"

fun bucket_tasks :: "string list \<Rightarrow> task list \<Rightarrow> (string \<times> bucket) list \<Rightarrow> (string \<times> bucket) list" where
  "bucket_tasks keys [] phases = phases"
| "bucket_tasks keys (t # tasks) phases = bucket_tasks keys tasks (bucket_task keys t phases)"

definition percentage :: "nat \<Rightarrow> nat \<Rightarrow> rat" where
  "percentage n_completed n_total =
     (if n_total > 0 then py_round (float_mul (true_div n_completed n_total) 100) 1 else 0)"

definition with_percentage :: "bucket \<Rightarrow> phase_status" where
  "with_percentage data =
     \<lparr>p_total = b_total data, p_completed = b_completed data,
      p_percentage = percentage (b_completed data) (b_total data)\<rparr>"

definition is_overdue :: "string \<Rightarrow> task \<Rightarrow> bool" where
  "is_overdue today_str t =
     (\<not> t_completed t \<and>
      (case t_due_on t of None \<Rightarrow> False | Some due \<Rightarrow> due \<noteq> [] \<and> due < today_str))"

definition get_task_status_try :: "world \<Rightarrow> (string \<times> phase) list \<Rightarrow> exn + status option" where
  "get_task_status_try w phase_table =
     (case get_tasks_for_project w of
        Inl e \<Rightarrow> Inl e
      | Inr tasks \<Rightarrow>
          let n_total = length tasks;
              n_completed = length (filter t_completed tasks);
              n_incomplete = n_total - n_completed;
              n_unassigned = length (filter (\<lambda>t. \<not> t_completed t \<and> t_assignee t = None) tasks);
              n_overdue = length (filter (is_overdue (today w)) tasks);
              phases = bucket_tasks (map fst phase_table) tasks []
          in Inr (Some \<lparr>s_total = n_total, s_completed = n_completed,
                    s_incomplete = n_incomplete,
                    s_unassigned = n_unassigned, s_overdue = n_overdue,
                    s_percentage = percentage n_completed n_total,
                    s_phases = map (\<lambda>(phase_num, data). (phase_num, with_percentage data)) phases\<rparr>))"

definition get_task_status :: "world \<Rightarrow> (string \<times> phase) list \<Rightarrow> exn + status option" where
  "get_task_status w phase_table =
     try_except (get_task_status_try w phase_table) (\<lambda>e. Inr None)"

section \<open>Sample inputs\<close>

text \<open>Concrete tasks, users and worlds on which the theorems below are run.\<close>

definition task0 :: task where
  "task0 = \<lparr>t_gid = Some ''1001'', t_name = Some ''PHASE 1: Kickoff'', t_completed = False,
            t_notes = None, t_due_on = None, t_assignee = None\<rparr>"

definition task_done :: task where
  "task_done = \<lparr>t_gid = Some ''1002'', t_name = Some ''PHASE 2: Survey'', t_completed = True,
                t_notes = None, t_due_on = Some ''2024-01-31'', t_assignee = Some ''Alice''\<rparr>"

definition state0 :: enrich_state where
  "state0 = \<lparr>counts = \<lparr>processed = 0, updated = 0, skipped = 0, failed = 0\<rparr>, patches = []\<rparr>"

text \<open>A world where every call succeeds and the provider answers \<^verbatim>\<open>Do it\<close>.\<close>

definition world_ok :: world where
  "world_ok =
     \<lparr>get_tasks_for_project = Inr [task0],
      get_tasks_due_before = (\<lambda>days. Inr [task0]),
      find_all = Inr [\<lparr>u_gid = ''77'', u_name = ''Alice Smith''\<rparr>],
      post = (\<lambda>i prompt. Response 200 (Some ''Do it'')),
      update_notes = (\<lambda>i task_id notes. None),
      update_assignee = (\<lambda>k task_id data. None),
      path_txt = Some ''PHASE 1: Plan (Week 1-2)'',
      today = ''2024-02-01'',
      ASSISTANT_NAME = ''AI Assistant'',
      DOMAIN_KNOWLEDGE = ''PHASE 1: Plan (Week 1-2)''\<rparr>"

text \<open>The same world with a provider that answers every request with status 429.\<close>

definition world_429 :: world where
  "world_429 = world_ok\<lparr>post := (\<lambda>i prompt. Response 429 None)\<rparr>"

text \<open>The same world with a tracking service that cannot be reached.\<close>

definition world_down :: world where
  "world_down =
     world_ok\<lparr>get_tasks_for_project := Inl ConnectionError,
              get_tasks_due_before := (\<lambda>days. Inl ConnectionError),
              find_all := Inl ConnectionError\<rparr>"

text \<open>A task that an earlier run has enriched, and a world whose project holds it.\<close>

definition task_enriched :: task where
  "task_enriched =
     \<lparr>t_gid = Some ''2001'', t_name = Some ''PHASE 1: Charter'', t_completed = False,
      t_notes = Some (''# TASK DESCRIPTION'' @ replicate 200 (CHR ''x'')),
      t_due_on = None, t_assignee = None\<rparr>"


text \<open>A project of ten tasks with four completed, and a project with five tasks of phase 2
  (three of them completed) and one of phase 1, with the phase table of a two-phase plan.\<close>

definition task_review :: task where
  "task_review =
     \<lparr>t_gid = Some ''1003'', t_name = Some ''Review PHASE 2: Survey'', t_completed = False,
      t_notes = None, t_due_on = Some ''2024-01-15'', t_assignee = None\<rparr>"

definition world_ten :: world where
  "world_ten = world_ok\<lparr>get_tasks_for_project := Inr (replicate 4 task_done @ replicate 6 task0)\<rparr>"

definition world_phase2 :: world where
  "world_phase2 =
     world_ok\<lparr>get_tasks_for_project :=
       Inr [task_done, task_review, task0, task_done, task_review, task_done]\<rparr>"

definition phases_12 :: "(string \<times> phase) list" where
  "phases_12 = [(''1'', new_phase ''Plan'' ''Week 1-2''), (''2'', new_phase ''Build'' ''Week 3-6'')]"



text \<open>A batch of four tasks, one of them completed and one enriched before, with a provider
  that answers 429; and a project with a task that names two phases and one that names
  none.\<close>

definition world_429_batch :: world where
  "world_429_batch =
     world_429\<lparr>get_tasks_for_project := Inr [task0, task_enriched, task_done, task_review]\<rparr>"

definition task_both :: task where
  "task_both =
     \<lparr>t_gid = Some ''1004'', t_name = Some ''PHASE 2: hand over to PHASE 1: Plan'',
      t_completed = True, t_notes = None, t_due_on = None, t_assignee = None\<rparr>"

definition task_none :: task where
  "task_none =
     \<lparr>t_gid = Some ''1005'', t_name = Some ''Kickoff meeting'', t_completed = False,
      t_notes = None, t_due_on = None, t_assignee = None\<rparr>"

definition world_mixed :: world where
  "world_mixed =
     world_ok\<lparr>get_tasks_for_project := Inr [task_both, task_none, task_done, task_review]\<rparr>"

section \<open>Provider failures\<close>

lemma try_except_total: "try_except body (\<lambda>e. Inr v) \<noteq> Inl e'"
  by (cases body) (simp_all add: try_except_def)

lemma ask_question_never_raises: "ask_question w question \<noteq> Inl e"
  unfolding ask_question_def by (rule try_except_total)

lemma enrich_task_descriptions_never_raises: "enrich_task_descriptions w limit \<noteq> Inl e"
  unfolding enrich_task_descriptions_def by (rule try_except_total)

lemma get_task_status_never_raises: "get_task_status w phase_table \<noteq> Inl e"
  unfolding get_task_status_def by (rule try_except_total)

lemma get_upcoming_tasks_never_raises: "get_upcoming_tasks w days \<noteq> Inl e"
  unfolding get_upcoming_tasks_def by (rule try_except_total)

lemma get_task_status_fetch_error:
  "get_tasks_for_project w = Inl e \<Longrightarrow> get_task_status w phase_table = Inr None"
  by (simp add: get_task_status_def get_task_status_try_def try_except_def)

lemma get_upcoming_tasks_fetch_error:
  "get_tasks_due_before w days = Inl e \<Longrightarrow> get_upcoming_tasks w days = Inr []"
  by (simp add: get_upcoming_tasks_def try_except_def)

lemma ask_question_failure:
  assumes "post w 0 (ask_prompt (DOMAIN_KNOWLEDGE w) question) = r"
    and "r = Transport_error \<or> (\<exists>code body. r = Response code body \<and> code \<noteq> 200)"
  shows "ask_question w question = Inr None"
  using assms by (auto simp: ask_question_def ask_question_try_def try_except_def)

lemma enrich_task_failure:
  assumes "\<not> already_enriched t"
    and "post w i (enrich_prompt (dict_get (t_name t) ''Unnamed task'') path_content) = r"
    and "r = Transport_error \<or> (\<exists>code body. r = Response code body \<and> code \<noteq> 200)"
  shows "failed (counts (enrich_task w path_content i t st)) = failed (counts st) + 1"
    and "updated (counts (enrich_task w path_content i t st)) = updated (counts st)"
    and "skipped (counts (enrich_task w path_content i t st)) = skipped (counts st)"
    and "patches (enrich_task w path_content i t st) = patches st"
  using assms
  by (auto simp: enrich_task_def enrich_task_try_def already_enriched_def Let_def
      bump_failed_def bump_processed_def)

section \<open>Bulk reassignment\<close>

lemma find_assignee_none:
  "(\<forall>u \<in> set users. \<not> contains (lower assignee) (lower (u_name u)))
     \<Longrightarrow> find_assignee assignee users = None"
  by (induction users) simp_all

lemma find_assignee_none_iff:
  "find_assignee assignee users = None
     \<longleftrightarrow> (\<forall>u \<in> set users. \<not> contains (lower assignee) (lower (u_name u)))"
  by (induction users) simp_all

text \<open>
  Claim C8. When the user list is fetched and no user's name contains the assignee, compared
  without regard to case, \<^verbatim>\<open>bulk_assign_tasks\<close> returns
  \<^verbatim>\<open>{'success': 0, 'failed': 0, 'tasks': []}\<close> and issues no \<^verbatim>\<open>update_task\<close> call, whatever
  the task list.
\<close>

theorem bulk_assign_unknown_assignee:
  assumes "find_all w = Inr users"
    and "\<forall>u \<in> set users. \<not> contains (lower assignee) (lower (u_name u))"
  shows "bulk_assign_tasks w tasks assignee due_on
           = Inr (\<lparr>a_success = 0, a_failed = 0, a_tasks = []\<rparr>, [])"
  using assms(1) find_assignee_none [OF assms(2)]
  by (simp add: bulk_assign_tasks_def)

theorem bulk_assign_unknown_assignee_witness:
  "bulk_assign_tasks world_ok [task0, task_done] ''Bob'' (Some ''2024-03-01'')
     = Inr (\<lparr>a_success = 0, a_failed = 0, a_tasks = []\<rparr>, [])"
proof -
  have f: "find_all world_ok = Inr [\<lparr>u_gid = ''77'', u_name = ''Alice Smith''\<rparr>]"
    by (simp add: world_ok_def)
  have n: "\<forall>u \<in> set [\<lparr>u_gid = ''77'', u_name = ''Alice Smith''\<rparr>].
             \<not> contains (lower ''Bob'') (lower (u_name u))"
    by code_simp
  show ?thesis
    using bulk_assign_unknown_assignee [OF f n] .
qed

text \<open>
  Claim C9 asks that no error of an external call leaves a component as an exception.
  \<^verbatim>\<open>bulk_assign_tasks\<close> reads the user list outside any \<^verbatim>\<open>try\<close> block: with the tracking
  service out of reach the exception leaves the function, while \<^verbatim>\<open>get_task_status\<close> and
  \<^verbatim>\<open>get_upcoming_tasks\<close> in the same situation return their no-result values.
\<close>

theorem bulk_assign_user_fetch_raises:
  "bulk_assign_tasks world_down [task0] ''Alice'' None = Inl ConnectionError"
  by (simp add: bulk_assign_tasks_def world_down_def world_ok_def)

lemma bulk_assign_propagates:
  "find_all w = Inl e \<Longrightarrow> bulk_assign_tasks w tasks assignee due_on = Inl e"
  by (simp add: bulk_assign_tasks_def)

lemma siblings_catch_fetch_error:
  "get_task_status world_down phase_table = Inr None"
  "get_upcoming_tasks world_down 7 = Inr []"
  by (simp_all add: get_task_status_fetch_error get_upcoming_tasks_fetch_error
      world_down_def world_ok_def)

section \<open>Task enrichment\<close>


text \<open>Each round of the loop adds one to exactly one of the skipped, updated and failed
  counters; the skipped counter moves exactly for the tasks that pass the skip test.\<close>

lemma enrich_task_accounting:
  "updated (counts (enrich_task w pc i t st)) + skipped (counts (enrich_task w pc i t st))
     + failed (counts (enrich_task w pc i t st))
   = updated (counts st) + skipped (counts st) + failed (counts st) + 1"
  by (simp add: enrich_task_def enrich_task_try_def Let_def bump_skipped_def bump_failed_def
      bump_processed_def bump_updated_def split: http_result.splits option.splits)

lemma enrich_task_skipped:
  "skipped (counts (enrich_task w pc i t st))
   = skipped (counts st) + (if already_enriched t then 1 else 0)"
  by (simp add: enrich_task_def enrich_task_try_def already_enriched_def Let_def
      bump_skipped_def bump_failed_def bump_processed_def bump_updated_def
      split: http_result.splits option.splits)

lemma enrich_task_processed:
  "processed (counts (enrich_task w pc i t st)) \<le> processed (counts st) + 1"
  by (simp add: enrich_task_def enrich_task_try_def Let_def bump_skipped_def bump_failed_def
      bump_processed_def bump_updated_def split: http_result.splits option.splits)


lemma enrich_loop_accounting:
  "updated (counts (enrich_loop w pc i ts st)) + skipped (counts (enrich_loop w pc i ts st))
     + failed (counts (enrich_loop w pc i ts st))
   = updated (counts st) + skipped (counts st) + failed (counts st) + length ts"
proof (induction ts arbitrary: i st)
  case Nil
  then show ?case by simp
next
  case (Cons t ts)
  show ?case
    using Cons.IH [of "Suc i" "enrich_task w pc i t st"] enrich_task_accounting [of w pc i t st]
    by simp
qed

lemma enrich_loop_skipped:
  "skipped (counts (enrich_loop w pc i ts st))
   = skipped (counts st) + length (filter already_enriched ts)"
proof (induction ts arbitrary: i st)
  case Nil
  then show ?case by simp
next
  case (Cons t ts)
  show ?case
    using Cons.IH [of "Suc i" "enrich_task w pc i t st"] enrich_task_skipped [of w pc i t st]
    by simp
qed

lemma enrich_loop_processed:
  "processed (counts (enrich_loop w pc i ts st)) \<le> processed (counts st) + length ts"
proof (induction ts arbitrary: i st)
  case Nil
  then show ?case by simp
next
  case (Cons t ts)
  show ?case
    using Cons.IH [of "Suc i" "enrich_task w pc i t st"] enrich_task_processed [of w pc i t st]
    by simp
qed



lemma enrich_run:
  assumes "get_tasks_for_project w = Inr tasks"
  shows "enrich_task_descriptions w limit =
           Inr \<lparr>returned = None,
                summary = Some (counts (enrich_loop w (dict_get (path_txt w) []) 0
                                   (tasks_to_process limit tasks) state0)),
                issued = patches (enrich_loop w (dict_get (path_txt w) []) 0
                                   (tasks_to_process limit tasks) state0)\<rparr>"
  using assms
  by (simp add: enrich_task_descriptions_def enrich_task_descriptions_try_def try_except_def
      state0_def Let_def)

lemma enrich_run_fetch_error:
  assumes "get_tasks_for_project w = Inl e"
  shows "enrich_task_descriptions w limit = Inr \<lparr>returned = None, summary = None, issued = []\<rparr>"
  using assms
  by (simp add: enrich_task_descriptions_def enrich_task_descriptions_try_def try_except_def)

lemma enrich_run_counts:
  assumes "get_tasks_for_project w = Inr tasks"
  shows "\<exists>out r. enrich_task_descriptions w limit = Inr out \<and> summary out = Some r
           \<and> updated r + skipped r + failed r = length (tasks_to_process limit tasks)
           \<and> processed r \<le> length (tasks_to_process limit tasks)
           \<and> skipped r = length (filter already_enriched (tasks_to_process limit tasks))"
  using enrich_run [OF assms, of limit]
    enrich_loop_accounting [of w "dict_get (path_txt w) []" 0 "tasks_to_process limit tasks" state0]
    enrich_loop_processed [of w "dict_get (path_txt w) []" 0 "tasks_to_process limit tasks" state0]
    enrich_loop_skipped [of w "dict_get (path_txt w) []" 0 "tasks_to_process limit tasks" state0]
  by (simp add: state0_def)

lemma world_ok_run:
  "enrich_loop world_ok pc 0 [task0] state0
     = \<lparr>counts = \<lparr>processed = 1, updated = 1, skipped = 0, failed = 0\<rparr>,
        patches = [(Some ''1001'',
          formatted_description world_ok (strip ''Do it'') ''PHASE 1: Kickoff'')]\<rparr>"
  by (simp add: enrich_task_def enrich_task_try_def world_ok_def task0_def state0_def
      dict_get_def Let_def bump_processed_def bump_updated_def)

text \<open>
  Claim C3 says that \<^verbatim>\<open>enrich_task_descriptions\<close> returns the counts processed, updated,
  skipped and failed to its caller. The function has no \<^verbatim>\<open>return\<close> statement: on the sample
  world it updates one task, prints the counts 1, 1, 0, 0 in its summary, and the value it
  returns is \<^verbatim>\<open>None\<close>.
\<close>

theorem enrich_returns_counts_counterexample:
  "\<not> isl (enrich_task_descriptions world_ok None)
   \<and> summary (projr (enrich_task_descriptions world_ok None))
       = Some \<lparr>processed = 1, updated = 1, skipped = 0, failed = 0\<rparr>
   \<and> returned (projr (enrich_task_descriptions world_ok None)) = None
   \<and> returned (projr (enrich_task_descriptions world_ok None))
       \<noteq> Some \<lparr>processed = 1, updated = 1, skipped = 0, failed = 0\<rparr>"
proof -
  have f: "get_tasks_for_project world_ok = Inr [task0]"
    by (simp add: world_ok_def)
  have t: "tasks_to_process None [task0] = [task0]"
    by (simp add: tasks_to_process_def task0_def)
  show ?thesis
    by (simp add: enrich_run [OF f] t world_ok_run del: enrich_loop.simps)
qed

text \<open>
  Claim C3, amended. Every invocation of \<^verbatim>\<open>enrich_task_descriptions\<close> returns \<^verbatim>\<open>None\<close> to its
  caller and raises nothing. When the task list is fetched, the counts processed, updated,
  skipped and failed of the batch are printed in the summary: each task taken is counted
  once as updated, skipped or failed, and processed is at most the number of tasks taken.
  When the fetch fails, no summary is printed and no update is issued.
\<close>

theorem enrich_prints_counts_returns_none:
  "\<exists>out. enrich_task_descriptions w limit = Inr out \<and> returned out = None
     \<and> (case get_tasks_for_project w of
           Inl e \<Rightarrow> summary out = None \<and> issued out = []
         | Inr tasks \<Rightarrow>
             (\<exists>r. summary out = Some r
                \<and> updated r + skipped r + failed r = length (tasks_to_process limit tasks)
                \<and> processed r \<le> length (tasks_to_process limit tasks)))"
proof (cases "get_tasks_for_project w")
  case (Inl e)
  then show ?thesis
    by (simp add: enrich_run_fetch_error)
next
  case (Inr tasks)
  have "returned \<lparr>returned = None, summary = s, issued = p\<rparr> = None" for s p
    by simp
  then show ?thesis
    using Inr enrich_run [OF Inr, of limit] enrich_run_counts [OF Inr, of limit]
    by auto
qed

theorem enrich_prints_counts_returns_none_witness:
  "\<exists>out. enrich_task_descriptions world_ok None = Inr out \<and> returned out = None
     \<and> (\<exists>r. summary out = Some r \<and> updated r + skipped r + failed r = 1 \<and> processed r \<le> 1)"
proof -
  have f: "get_tasks_for_project world_ok = Inr [task0]"
    by (simp add: world_ok_def)
  have t: "tasks_to_process None [task0] = [task0]"
    by (simp add: tasks_to_process_def task0_def)
  show ?thesis
    using enrich_prints_counts_returns_none [of world_ok None]
    by (simp add: f t)
qed

text \<open>A limit of 1 or more takes the first tasks of the incomplete ones, an unset limit all.\<close>

lemma tasks_to_process_positive:
  "1 \<le> n \<Longrightarrow>
     tasks_to_process (Some n) tasks = take (nat n) (filter (\<lambda>t. \<not> t_completed t) tasks)"
  by (simp add: tasks_to_process_def py_slice_to_def)

lemma tasks_to_process_unset:
  "tasks_to_process None tasks = filter (\<lambda>t. \<not> t_completed t) tasks"
  by (simp add: tasks_to_process_def)

text \<open>
  Claim C4 says that a limit \<open>n \<ge> 0\<close> lets at most \<open>n\<close> incomplete tasks through, so none
  for the limit 0. The test \<^verbatim>\<open>if limit:\<close> is false for 0 as it is for a limit that is not
  set, and the slice is not taken: with the limit 0 every incomplete task is processed. On
  the sample world the one incomplete task is enriched and its update is issued.
\<close>

theorem enrich_limit_zero_takes_every_task:
  "tasks_to_process (Some 0) tasks = filter (\<lambda>t. \<not> t_completed t) tasks
   \<and> \<not> length (tasks_to_process (Some 0) [task0]) \<le> nat 0
   \<and> summary (projr (enrich_task_descriptions world_ok (Some 0)))
       = Some \<lparr>processed = 1, updated = 1, skipped = 0, failed = 0\<rparr>
   \<and> map fst (issued (projr (enrich_task_descriptions world_ok (Some 0)))) = [Some ''1001'']"
proof -
  have f: "get_tasks_for_project world_ok = Inr [task0]"
    by (simp add: world_ok_def)
  have t: "tasks_to_process (Some 0) [task0] = [task0]"
    by (simp add: tasks_to_process_def task0_def)
  have g: "tasks_to_process (Some 0) tasks = filter (\<lambda>t. \<not> t_completed t) tasks"
    by (simp add: tasks_to_process_def)
  have r: "\<not> length (tasks_to_process (Some 0) [task0]) \<le> nat 0
   \<and> summary (projr (enrich_task_descriptions world_ok (Some 0)))
       = Some \<lparr>processed = 1, updated = 1, skipped = 0, failed = 0\<rparr>
   \<and> map fst (issued (projr (enrich_task_descriptions world_ok (Some 0)))) = [Some ''1001'']"
    by (simp add: enrich_run [OF f] t world_ok_run del: enrich_loop.simps)
  show ?thesis
    by (rule conjI [OF g r])
qed



section \<open>Provider failures in a batch\<close>

lemma provider_failure_iff:
  "provider_failure r \<longleftrightarrow>
     r = Transport_error \<or> (\<exists>code body. r = Response code body \<and> code \<noteq> 200)"
  by (cases r) (simp_all add: provider_failure_def)

lemma failing_rounds_Nil: "failing_rounds w pc i [] = []"
  by (simp add: failing_rounds_def)

lemma failing_rounds_Cons:
  "failing_rounds w pc i (t # ts) =
     (if \<not> already_enriched t
         \<and> provider_failure (post w i (enrich_prompt (dict_get (t_name t) ''Unnamed task'') pc))
      then [(i, t)] else [])
     @ failing_rounds w pc (Suc i) ts"
  by (simp add: failing_rounds_def)

text \<open>A round that meets a provider failure on a task that is not skipped adds one to the
  failed counter; no round takes anything from it.\<close>

lemma enrich_task_failed_lower:
  "failed (counts st)
     + (if \<not> already_enriched t
           \<and> provider_failure (post w i (enrich_prompt (dict_get (t_name t) ''Unnamed task'') pc))
        then 1 else 0)
   \<le> failed (counts (enrich_task w pc i t st))"
  by (simp add: enrich_task_def enrich_task_try_def already_enriched_def provider_failure_def
      Let_def bump_skipped_def bump_failed_def bump_processed_def bump_updated_def
      split: http_result.splits option.splits)

text \<open>A round issues at most one update, and none when the task is skipped or the provider
  fails.\<close>

lemma enrich_task_patches_length:
  "length (patches (enrich_task w pc i t st))
     + (if \<not> already_enriched t
           \<and> provider_failure (post w i (enrich_prompt (dict_get (t_name t) ''Unnamed task'') pc))
        then 1 else 0)
     + (if already_enriched t then 1 else 0)
   \<le> length (patches st) + 1"
  by (simp add: enrich_task_def enrich_task_try_def already_enriched_def provider_failure_def
      Let_def bump_skipped_def bump_failed_def bump_processed_def bump_updated_def
      split: http_result.splits option.splits)

lemma enrich_loop_failed_lower:
  "failed (counts st) + length (failing_rounds w pc i ts)
     \<le> failed (counts (enrich_loop w pc i ts st))"
proof (induction ts arbitrary: i st)
  case Nil
  then show ?case
    by (simp add: failing_rounds_Nil)
next
  case (Cons t ts)
  show ?case
    using Cons.IH [of "enrich_task w pc i t st" "Suc i"] enrich_task_failed_lower [of st t w i pc]
    by (auto simp: failing_rounds_Cons split: if_splits)
qed

lemma enrich_loop_patches_length:
  "length (patches (enrich_loop w pc i ts st)) + length (failing_rounds w pc i ts)
     + length (filter already_enriched ts)
   \<le> length (patches st) + length ts"
proof (induction ts arbitrary: i st)
  case Nil
  then show ?case
    by (simp add: failing_rounds_Nil)
next
  case (Cons t ts)
  show ?case
    using Cons.IH [of "Suc i" "enrich_task w pc i t st"] enrich_task_patches_length [of w pc i t st]
    by (auto simp: failing_rounds_Cons split: if_splits)
qed

lemma enrich_run_failures:
  assumes "get_tasks_for_project w = Inr tasks"
  shows "\<exists>out r. enrich_task_descriptions w limit = Inr out \<and> summary out = Some r
           \<and> length (failing_rounds w (dict_get (path_txt w) []) 0 (tasks_to_process limit tasks))
               \<le> failed r
           \<and> updated r + skipped r + failed r = length (tasks_to_process limit tasks)
           \<and> skipped r = length (filter already_enriched (tasks_to_process limit tasks))
           \<and> length (issued out)
               + length (failing_rounds w (dict_get (path_txt w) []) 0
                   (tasks_to_process limit tasks))
               + skipped r
               \<le> length (tasks_to_process limit tasks)"
proof -
  let ?pc = "dict_get (path_txt w) []"
  let ?ts = "tasks_to_process limit tasks"
  let ?st = "enrich_loop w ?pc 0 ?ts state0"
  have a: "length (failing_rounds w ?pc 0 ?ts) \<le> failed (counts ?st)"
    using enrich_loop_failed_lower [of state0 w ?pc 0 ?ts] by (simp add: state0_def)
  have b: "updated (counts ?st) + skipped (counts ?st) + failed (counts ?st) = length ?ts"
    using enrich_loop_accounting [of w ?pc 0 ?ts state0] by (simp add: state0_def)
  have c: "skipped (counts ?st) = length (filter already_enriched ?ts)"
    using enrich_loop_skipped [of w ?pc 0 ?ts state0] by (simp add: state0_def)
  have d: "length (patches ?st) + length (failing_rounds w ?pc 0 ?ts) + skipped (counts ?st)
             \<le> length ?ts"
    using enrich_loop_patches_length [of w ?pc 0 ?ts state0] c by (simp add: state0_def)
  show ?thesis
    using enrich_run [OF assms, of limit] a b c d by simp
qed

text \<open>
  Claim C7. Whenever the inference provider answers with a status other than 200 (401, 429
  and the 5xx codes among them) or the call raises a transport error, \<^verbatim>\<open>ask_question\<close>
  returns \<^verbatim>\<open>None\<close> and raises nothing. In the enrichment loop the same failure, on a task
  that is not skipped, adds one to the failed counter and leaves the updated and skipped
  counters and the issued updates as they were. A whole run of \<^verbatim>\<open>enrich_task_descriptions\<close>
  raises nothing and, once the task list is fetched, prints a summary in which the failed
  counter is at least the number of rounds that met such a failure; every task taken is
  counted once as updated, skipped or failed, and no update is issued in a round that is
  skipped or meets a provider failure.
\<close>

theorem provider_failure_is_no_result:
  "(provider_failure (post w 0 (ask_prompt (DOMAIN_KNOWLEDGE w) question))
      \<longrightarrow> ask_question w question = Inr None)
   \<and> (\<forall>e. ask_question w question \<noteq> Inl e)
   \<and> (\<not> already_enriched t
        \<and> provider_failure
            (post w i (enrich_prompt (dict_get (t_name t) ''Unnamed task'') path_content))
      \<longrightarrow> failed (counts (enrich_task w path_content i t st)) = failed (counts st) + 1
        \<and> updated (counts (enrich_task w path_content i t st)) = updated (counts st)
        \<and> skipped (counts (enrich_task w path_content i t st)) = skipped (counts st)
        \<and> patches (enrich_task w path_content i t st) = patches st)
   \<and> (\<forall>e. enrich_task_descriptions w limit \<noteq> Inl e)
   \<and> (get_tasks_for_project w = Inr tasks
      \<longrightarrow> (\<exists>out r. enrich_task_descriptions w limit = Inr out \<and> summary out = Some r
             \<and> length (failing_rounds w (dict_get (path_txt w) []) 0
                         (tasks_to_process limit tasks))
                 \<le> failed r
             \<and> updated r + skipped r + failed r = length (tasks_to_process limit tasks)
             \<and> skipped r = length (filter already_enriched (tasks_to_process limit tasks))
             \<and> length (issued out)
                 + length (failing_rounds w (dict_get (path_txt w) []) 0
                     (tasks_to_process limit tasks))
                 + skipped r
                 \<le> length (tasks_to_process limit tasks)))"
proof -
  have a: "provider_failure (post w 0 (ask_prompt (DOMAIN_KNOWLEDGE w) question))
             \<longrightarrow> ask_question w question = Inr None"
    using ask_question_failure [of w question] by (simp add: provider_failure_iff)
  have b: "\<forall>e. ask_question w question \<noteq> Inl e"
    using ask_question_never_raises [of w question] by blast
  have c: "\<not> already_enriched t
        \<and> provider_failure
            (post w i (enrich_prompt (dict_get (t_name t) ''Unnamed task'') path_content))
      \<longrightarrow> failed (counts (enrich_task w path_content i t st)) = failed (counts st) + 1
        \<and> updated (counts (enrich_task w path_content i t st)) = updated (counts st)
        \<and> skipped (counts (enrich_task w path_content i t st)) = skipped (counts st)
        \<and> patches (enrich_task w path_content i t st) = patches st"
    using enrich_task_failure [of t w i path_content _ st] by (simp add: provider_failure_iff)
  have d: "\<forall>e. enrich_task_descriptions w limit \<noteq> Inl e"
    using enrich_task_descriptions_never_raises [of w limit] by blast
  have e: "get_tasks_for_project w = Inr tasks
      \<longrightarrow> (\<exists>out r. enrich_task_descriptions w limit = Inr out \<and> summary out = Some r
             \<and> length (failing_rounds w (dict_get (path_txt w) []) 0
                         (tasks_to_process limit tasks))
                 \<le> failed r
             \<and> updated r + skipped r + failed r = length (tasks_to_process limit tasks)
             \<and> skipped r = length (filter already_enriched (tasks_to_process limit tasks))
             \<and> length (issued out)
                 + length (failing_rounds w (dict_get (path_txt w) []) 0
                     (tasks_to_process limit tasks))
                 + skipped r
                 \<le> length (tasks_to_process limit tasks))"
    by (intro impI) (rule enrich_run_failures)
  show ?thesis
    apply (rule conjI, rule a)
    apply (rule conjI, rule b)
    apply (rule conjI, rule c)
    apply (rule conjI, rule d)
    apply (rule e)
    done
qed

theorem provider_failure_is_no_result_witness:
  "ask_question world_429 ''What is the next step?'' = Inr None
   \<and> failed (counts (enrich_task world_429 [] 0 task0 state0)) = 1
   \<and> updated (counts (enrich_task world_429 [] 0 task0 state0)) = 0
   \<and> patches (enrich_task world_429 [] 0 task0 state0) = []
   \<and> (\<exists>out r. enrich_task_descriptions world_429_batch None = Inr out \<and> summary out = Some r
         \<and> failed r = 2 \<and> skipped r = 1 \<and> updated r = 0 \<and> issued out = [])"
proof -
  note t1 = provider_failure_is_no_result
      [where w = world_429 and question = "''What is the next step?''" and t = task0 and i = 0
        and path_content = "[]" and st = state0 and limit = None and tasks = "[task0]"]
  note t2 = provider_failure_is_no_result
      [where w = world_429_batch and question = "''What is the next step?''" and t = task0
        and i = 0 and path_content = "[]" and st = state0 and limit = None
        and tasks = "[task0, task_enriched, task_done, task_review]"]
  have pf: "provider_failure (Response 429 None)"
    by (simp add: provider_failure_def)
  have p1: "post world_429 j prompt = Response 429 None" for j prompt
    by (simp add: world_429_def)
  have p2: "post world_429_batch j prompt = Response 429 None" for j prompt
    by (simp add: world_429_batch_def world_429_def)
  have ne: "\<not> already_enriched task0" "\<not> already_enriched task_review"
    by (simp_all add: already_enriched_def task0_def task_review_def dict_get_def)
  have n: "dict_get (t_notes task_enriched) [] = ''# TASK DESCRIPTION'' @ replicate 200 (CHR ''x'')"
    by (simp add: task_enriched_def dict_get_def)
  have ae: "already_enriched task_enriched"
    by (simp add: already_enriched_def n)
  have a: "ask_question world_429 ''What is the next step?'' = Inr None"
    using t1 [THEN conjunct1] pf by (simp add: p1)
  have b: "failed (counts (enrich_task world_429 [] 0 task0 state0)) = 1
     \<and> updated (counts (enrich_task world_429 [] 0 task0 state0)) = 0
     \<and> patches (enrich_task world_429 [] 0 task0 state0) = []"
    using t1 [THEN conjunct2, THEN conjunct2, THEN conjunct1] pf ne(1)
    by (simp add: p1 state0_def)
  have f: "get_tasks_for_project world_429_batch
             = Inr [task0, task_enriched, task_done, task_review]"
    by (simp add: world_429_batch_def)
  have c: "\<not> t_completed task0" "\<not> t_completed task_enriched" "t_completed task_done"
    "\<not> t_completed task_review"
    by (simp_all add: task0_def task_enriched_def task_done_def task_review_def)
  have ts: "tasks_to_process None [task0, task_enriched, task_done, task_review]
              = [task0, task_enriched, task_review]"
    using c by (simp add: tasks_to_process_def)
  have fr: "failing_rounds world_429_batch pc 0 [task0, task_enriched, task_review]
              = [(0, task0), (2, task_review)]" for pc
    using ne ae pf by (simp add: failing_rounds_Cons failing_rounds_Nil p2)
  obtain out r where o: "enrich_task_descriptions world_429_batch None = Inr out"
    "summary out = Some r"
    and i1: "2 \<le> failed r" and i2: "updated r + skipped r + failed r = 3"
    and i3: "skipped r = 1" and i4: "length (issued out) + 2 + skipped r \<le> 3"
    using t2 [THEN conjunct2, THEN conjunct2, THEN conjunct2, THEN conjunct2, rule_format, OF f]
      ne ae
    by (auto simp: ts fr)
  have "failed r = 2 \<and> skipped r = 1 \<and> updated r = 0 \<and> issued out = []"
    using i1 i2 i3 i4 by auto
  then have d: "\<exists>out r. enrich_task_descriptions world_429_batch None = Inr out
         \<and> summary out = Some r
         \<and> failed r = 2 \<and> skipped r = 1 \<and> updated r = 0 \<and> issued out = []"
    using o by blast
  show ?thesis
    apply (rule conjI, rule a)
    apply (rule conjI, rule b [THEN conjunct1])
    apply (rule conjI, rule b [THEN conjunct2, THEN conjunct1])
    apply (rule conjI, rule b [THEN conjunct2, THEN conjunct2])
    apply (rule d)
    done
qed

section \<open>Properties of the floating-point operations\<close>

lemma pow2_powi: "pow2 e = 2 powi e"
  by (simp add: pow2_def power_int_def field_simps)

lemma pow2_pos: "0 < pow2 e"
  by (simp add: pow2_powi)

lemma pow2_add: "pow2 (a + b) = pow2 a * pow2 b"
  by (simp add: pow2_powi power_int_add)

lemma pow2_mono: "a \<le> b \<Longrightarrow> pow2 a \<le> pow2 b"
  by (simp add: pow2_powi power_int_increasing)

lemma pow2_strict_mono: "a < b \<Longrightarrow> pow2 a < pow2 b"
  by (simp add: pow2_powi power_int_strict_increasing)

lemma pow2_numeral: "pow2 (numeral n) = 2 ^ numeral n"
  by (simp add: pow2_def)

lemma pow2_1: "pow2 1 = 2"
  by (simp add: pow2_def)

lemma round_half_even_cases:
  "round_half_even x = \<lfloor>x\<rfloor> \<and> x - of_int \<lfloor>x\<rfloor> \<le> 1 / 2
   \<or> round_half_even x = \<lfloor>x\<rfloor> + 1 \<and> 1 / 2 \<le> x - of_int \<lfloor>x\<rfloor>"
  by (auto simp: round_half_even_def Let_def)

lemma round_half_even_mono:
  assumes "x \<le> y"
  shows "round_half_even x \<le> round_half_even y"
proof (cases "\<lfloor>x\<rfloor> = \<lfloor>y\<rfloor>")
  case True
  then show ?thesis
    using assms by (auto simp: round_half_even_def Let_def)
next
  case False
  then have "\<lfloor>x\<rfloor> + 1 \<le> \<lfloor>y\<rfloor>"
    using floor_mono [OF assms] by linarith
  then show ?thesis
    using round_half_even_cases [of x] round_half_even_cases [of y] by linarith
qed

lemma round_half_even_of_int: "round_half_even (of_int n) = n"
  by (simp add: round_half_even_def)

lemma round_half_even_error: "\<bar>of_int (round_half_even x) - x\<bar> \<le> 1 / 2"
proof -
  have fl: "of_int \<lfloor>x\<rfloor> \<le> x" "x < of_int \<lfloor>x\<rfloor> + 1"
    by linarith+
  have "\<bar>of_int \<lfloor>x\<rfloor> - x\<bar> \<le> 1 / 2" if "x - of_int \<lfloor>x\<rfloor> \<le> 1 / 2"
    using that fl by linarith
  moreover have "\<bar>of_int (\<lfloor>x\<rfloor> + 1) - x\<bar> \<le> 1 / 2" if "1 / 2 \<le> x - of_int \<lfloor>x\<rfloor>"
    using that fl by (simp add: abs_le_iff)
  ultimately show ?thesis
    using round_half_even_cases [of x] by auto
qed

lemma ilog2_bounds:
  assumes "0 < x"
  shows "pow2 (ilog2 x) \<le> x \<and> x < pow2 (ilog2 x + 1)"
proof -
  obtain p q where pq: "quotient_of x = (p, q)"
    by (cases "quotient_of x")
  have q: "0 < q"
    using quotient_of_denom_pos [OF pq] .
  have x: "x = of_int p / of_int q"
    using quotient_of_div [OF pq] .
  have p: "0 < p"
    using assms q by (simp add: x zero_less_divide_iff)
  define d where "d = bitlen p - bitlen q"
  have bp: "1 \<le> bitlen p" and bq: "1 \<le> bitlen q"
    using p q bitlen_eq_zero_iff [of p] bitlen_eq_zero_iff [of q] bitlen_nonneg [of p]
      bitlen_nonneg [of q] by linarith+
  have "(2::int) ^ nat (bitlen p - 1) \<le> p" "p < 2 ^ nat (bitlen p)"
    using bitlen_bounds [OF p] by simp_all
  then have "(of_int ((2::int) ^ nat (bitlen p - 1)) :: rat) \<le> of_int p"
    "(of_int p :: rat) < of_int (2 ^ nat (bitlen p))"
    by (simp_all only: of_int_le_iff of_int_less_iff)
  then have p_lo: "pow2 (bitlen p - 1) \<le> of_int p" and p_hi: "of_int p < pow2 (bitlen p)"
    using bp by (simp_all add: pow2_def)
  have "(2::int) ^ nat (bitlen q - 1) \<le> q" "q < 2 ^ nat (bitlen q)"
    using bitlen_bounds [OF q] by simp_all
  then have "(of_int ((2::int) ^ nat (bitlen q - 1)) :: rat) \<le> of_int q"
    "(of_int q :: rat) < of_int (2 ^ nat (bitlen q))"
    by (simp_all only: of_int_le_iff of_int_less_iff)
  then have q_lo: "pow2 (bitlen q - 1) \<le> of_int q" and q_hi: "of_int q < pow2 (bitlen q)"
    using bq by (simp_all add: pow2_def)
  have qr: "(0::rat) < of_int q"
    using q by simp
  have "pow2 (d - 1) * of_int q \<le> pow2 (d - 1) * pow2 (bitlen q)"
    using q_hi pow2_pos [of "d - 1"] by (simp add: mult_le_cancel_left_pos)
  also have "\<dots> = pow2 (bitlen p - 1)"
    by (simp add: pow2_add [symmetric] d_def)
  finally have "pow2 (d - 1) * of_int q \<le> of_int p"
    using p_lo by linarith
  then have lo: "pow2 (d - 1) \<le> x"
    using qr by (simp add: x pos_le_divide_eq)
  have "of_int p < pow2 (bitlen p)"
    by (rule p_hi)
  also have "\<dots> = pow2 (d + 1) * pow2 (bitlen q - 1)"
    by (simp add: pow2_add [symmetric] d_def)
  also have "\<dots> \<le> pow2 (d + 1) * of_int q"
    using q_lo pow2_pos [of "d + 1"] by (simp add: mult_le_cancel_left_pos)
  finally have hi: "x < pow2 (d + 1)"
    using qr by (simp add: x pos_divide_less_eq)
  show ?thesis
    using lo hi by (simp add: ilog2_def pq d_def [symmetric] Let_def)
qed


lemma ilog2_mono:
  assumes "0 < x" "x \<le> y"
  shows "ilog2 x \<le> ilog2 y"
proof (rule ccontr)
  assume "\<not> ilog2 x \<le> ilog2 y"
  then have "ilog2 y + 1 \<le> ilog2 x"
    by simp
  then have "pow2 (ilog2 y + 1) \<le> pow2 (ilog2 x)"
    by (rule pow2_mono)
  moreover have "y < pow2 (ilog2 y + 1)" "pow2 (ilog2 x) \<le> x"
    using ilog2_bounds [of x] ilog2_bounds [of y] assms by simp_all
  ultimately show False
    using assms by linarith
qed

text \<open>The exponent of the last bit of the float nearest to a positive number.\<close>

lemma binary64_pos:
  "0 < x \<Longrightarrow>
     binary64 x = of_int (round_half_even (x / pow2 (max (ilog2 x - 52) (- 1074))))
                    * pow2 (max (ilog2 x - 52) (- 1074))"
  by (simp add: binary64_def Let_def)

lemma round_half_even_nonneg: "0 \<le> x \<Longrightarrow> 0 \<le> round_half_even x"
  using round_half_even_mono [of 0 x] round_half_even_of_int [of 0] by simp

lemma binary64_nonneg:
  assumes "0 \<le> x"
  shows "0 \<le> binary64 x"
proof (cases "x = 0")
  case True
  then show ?thesis by (simp add: binary64_def)
next
  case False
  then have x: "0 < x"
    using assms by simp
  have "0 \<le> x / pow2 (max (ilog2 x - 52) (- 1074))"
    using x pow2_pos [of "max (ilog2 x - 52) (- 1074)"] by simp
  then have "0 \<le> round_half_even (x / pow2 (max (ilog2 x - 52) (- 1074)))"
    by (rule round_half_even_nonneg)
  then show ?thesis
    using pow2_pos [of "max (ilog2 x - 52) (- 1074)"] by (simp add: binary64_pos [OF x])
qed

lemma binary64_mono_pos:
  assumes x: "0 < x" and xy: "x \<le> y"
  shows "binary64 x \<le> binary64 y"
proof -
  define ex where "ex = max (ilog2 x - 52) (- 1074)"
  define ey where "ey = max (ilog2 y - 52) (- 1074)"
  have y: "0 < y"
    using x xy by simp
  have fx: "binary64 x = of_int (round_half_even (x / pow2 ex)) * pow2 ex"
    using binary64_pos [OF x] by (simp add: ex_def)
  have fy: "binary64 y = of_int (round_half_even (y / pow2 ey)) * pow2 ey"
    using binary64_pos [OF y] by (simp add: ey_def)
  have le: "ex \<le> ey"
    using ilog2_mono [OF x xy] by (simp add: ex_def ey_def)
  show ?thesis
  proof (cases "ex = ey")
    case True
    have "x / pow2 ey \<le> y / pow2 ey"
      using xy pow2_pos [of ey] by (simp add: divide_le_cancel)
    then have "round_half_even (x / pow2 ey) \<le> round_half_even (y / pow2 ey)"
      by (rule round_half_even_mono)
    then have "(of_int (round_half_even (x / pow2 ey)) :: rat)
                 \<le> of_int (round_half_even (y / pow2 ey))"
      by (simp only: of_int_le_iff)
    then show ?thesis
      using pow2_pos [of ey] by (simp add: fx fy True mult_le_cancel_right)
  next
    case False
    then have lt: "ex + 1 \<le> ey"
      using le by simp
    then have ey: "ey = ilog2 y - 52"
      by (auto simp: ex_def ey_def)
    have "x < pow2 (ilog2 x + 1)"
      using ilog2_bounds [OF x] by simp
    also have "\<dots> \<le> pow2 (ex + 53)"
      by (rule pow2_mono) (simp add: ex_def)
    also have "\<dots> = 2 ^ 53 * pow2 ex"
      by (simp add: pow2_add pow2_numeral)
    finally have "x / pow2 ex \<le> of_int (2 ^ 53)"
      using pow2_pos [of ex] by (simp add: pos_divide_le_eq)
    then have "round_half_even (x / pow2 ex) \<le> round_half_even (of_int (2 ^ 53))"
      by (rule round_half_even_mono)
    then have "round_half_even (x / pow2 ex) \<le> 2 ^ 53"
      by (simp only: round_half_even_of_int)
    then have "(of_int (round_half_even (x / pow2 ex)) :: rat) \<le> of_int (2 ^ 53)"
      by (simp only: of_int_le_iff)
    then have "binary64 x \<le> 2 ^ 53 * pow2 ex"
      using pow2_pos [of ex] by (simp add: fx mult_le_cancel_right)
    also have "\<dots> = 2 ^ 52 * pow2 (ex + 1)"
      by (simp add: pow2_add pow2_1)
    also have "\<dots> \<le> 2 ^ 52 * pow2 ey"
      using pow2_mono [OF lt] by simp
    finally have upper: "binary64 x \<le> 2 ^ 52 * pow2 ey" .
    have "pow2 (ilog2 y) \<le> y"
      using ilog2_bounds [OF y] by simp
    moreover have "pow2 (ilog2 y) = 2 ^ 52 * pow2 ey"
    proof -
      have "ilog2 y = 52 + ey"
        by (simp add: ey)
      then have "pow2 (ilog2 y) = pow2 52 * pow2 ey"
        by (simp only: pow2_add)
      then show ?thesis
        by (simp only: pow2_numeral)
    qed
    ultimately have "of_int (2 ^ 52) \<le> y / pow2 ey"
      using pow2_pos [of ey] by (simp add: pos_le_divide_eq)
    then have "round_half_even (of_int (2 ^ 52)) \<le> round_half_even (y / pow2 ey)"
      by (rule round_half_even_mono)
    then have "2 ^ 52 \<le> round_half_even (y / pow2 ey)"
      by (simp only: round_half_even_of_int)
    then have "(of_int (2 ^ 52) :: rat) \<le> of_int (round_half_even (y / pow2 ey))"
      by (simp only: of_int_le_iff)
    then have "2 ^ 52 * pow2 ey \<le> binary64 y"
      using pow2_pos [of ey] by (simp add: fy mult_le_cancel_right)
    then show ?thesis
      using upper by linarith
  qed
qed

lemma binary64_mono:
  assumes "0 \<le> x" "x \<le> y"
  shows "binary64 x \<le> binary64 y"
proof (cases "x = 0")
  case True
  then show ?thesis
    using binary64_nonneg [of y] assms by (simp add: binary64_def)
next
  case False
  then show ?thesis
    using assms binary64_mono_pos [of x y] by simp
qed

lemma binary64_1: "binary64 1 = 1"
  by code_simp

lemma binary64_100: "binary64 100 = 100"
  by code_simp

lemma percentage_bounds:
  assumes "c \<le> t"
  shows "0 \<le> percentage c t \<and> percentage c t \<le> 100"
proof (cases "t = 0")
  case True
  then show ?thesis
    by (simp add: percentage_def)
next
  case False
  then have t: "0 < t"
    by simp
  have q: "0 \<le> (of_nat c / of_nat t :: rat)" "(of_nat c / of_nat t :: rat) \<le> 1"
    using assms t by simp_all
  have d0: "0 \<le> true_div c t"
    unfolding true_div_def using q(1) by (rule binary64_nonneg)
  have d1: "true_div c t \<le> 1"
    unfolding true_div_def using binary64_mono [OF q] by (simp add: binary64_1)
  have m0: "0 \<le> float_mul (true_div c t) 100"
    unfolding float_mul_def using d0 by (intro binary64_nonneg) simp
  have "true_div c t * 100 \<le> 100"
    using d1 by simp
  moreover have "0 \<le> true_div c t * 100"
    using d0 by simp
  ultimately have m1: "float_mul (true_div c t) 100 \<le> 100"
    unfolding float_mul_def using binary64_mono [of "true_div c t * 100" 100]
    by (simp add: binary64_100)
  define k where "k = round_half_even (float_mul (true_div c t) 100 * 10 ^ 1)"
  have k0: "0 \<le> k"
    unfolding k_def using m0 by (intro round_half_even_nonneg) simp
  have "float_mul (true_div c t) 100 * 10 ^ 1 \<le> of_int 1000"
    using m1 by simp
  then have "k \<le> round_half_even (of_int 1000)"
    unfolding k_def by (rule round_half_even_mono)
  then have k1: "k \<le> 1000"
    by (simp only: round_half_even_of_int)
  have r0: "0 \<le> (of_int k / 10 ^ 1 :: rat)"
    using k0 by simp
  have r1: "(of_int k / 10 ^ 1 :: rat) \<le> 100"
    using k1 by simp
  have "0 \<le> binary64 (of_int k / 10 ^ 1)"
    using r0 by (rule binary64_nonneg)
  moreover have "binary64 (of_int k / 10 ^ 1) \<le> 100"
    using binary64_mono [OF r0 r1] by (simp add: binary64_100)
  ultimately show ?thesis
    using t by (simp add: percentage_def py_round_def k_def)
qed

lemma percentage_4_10: "percentage 4 10 = 40"
  by code_simp

lemma percentage_3_5: "percentage 3 5 = 60"
  by code_simp

lemma percentage_0_1: "percentage 0 1 = 0"
  by code_simp

lemma percentage_3_6: "percentage 3 6 = 50"
  by code_simp

section \<open>Status aggregation\<close>

lemma prefix_contains: "prefix needle hay \<Longrightarrow> contains needle hay"
  by (cases hay) simp_all


lemma map_of_count_in_phase:
  "map_of (count_in_phase n t phases) k =
     (if k = n
      then Some \<lparr>b_total = (case map_of phases k of None \<Rightarrow> 0 | Some b \<Rightarrow> b_total b) + 1,
                 b_completed = (case map_of phases k of None \<Rightarrow> 0 | Some b \<Rightarrow> b_completed b)
                                 + (if t_completed t then 1 else 0)\<rparr>
      else map_of phases k)"
  by (simp add: count_in_phase_def Let_def map_of_map_entry update_conv' split: option.splits)

lemma update_absent: "map_of xs k = None \<Longrightarrow> AList.update k v xs = xs @ [(k, v)]"
  by (induction xs) (auto split: if_splits)

lemma map_entry_append_new:
  "map_of xs k = None \<Longrightarrow> AList.map_entry k f (xs @ [(k, v)]) = xs @ [(k, f v)]"
  by (induction xs) (auto split: if_splits)

lemma set_map_entry:
  "(k', b') \<in> set (AList.map_entry k f xs)
     \<Longrightarrow> (k', b') \<in> set xs \<or> (k' = k \<and> (\<exists>b. (k, b) \<in> set xs \<and> b' = f b))"
  by (induction xs) (auto split: if_splits)

lemma map_entry_twice:
  "AList.map_entry k f (AList.map_entry k g xs) = AList.map_entry k (\<lambda>b. f (g b)) xs"
  by (induction xs) auto

lemma sum_map_entry:
  assumes "map_of xs k \<noteq> None" and "\<And>b. b_total (f b) = b_total b + 1"
  shows "sum_list (map (\<lambda>(k, b). b_total b) (AList.map_entry k f xs))
           = sum_list (map (\<lambda>(k, b). b_total b) xs) + 1"
  using assms by (induction xs) (auto split: if_splits)

text \<open>A new bucket starts at total 1; an existing one moves up by one.\<close>

lemma count_in_phase_new:
  assumes "map_of phases n = None"
  shows "count_in_phase n t phases
           = phases @ [(n, \<lparr>b_total = 1, b_completed = (if t_completed t then 1 else 0)\<rparr>)]"
  using assms
  by (simp add: count_in_phase_def Let_def update_absent map_entry_append_new)

lemma count_in_phase_old:
  assumes "map_of phases n \<noteq> None"
  shows "count_in_phase n t phases
           = AList.map_entry n
               (\<lambda>b. \<lparr>b_total = b_total b + 1,
                      b_completed = b_completed b + (if t_completed t then 1 else 0)\<rparr>) phases"
proof -
  have "(\<lambda>b. (b\<lparr>b_total := b_total b + 1\<rparr>)\<lparr>b_completed := b_completed b + 1\<rparr>)
          = (\<lambda>b. \<lparr>b_total = b_total b + 1, b_completed = b_completed b + 1\<rparr>)"
    by (rule ext) simp
  moreover have "(\<lambda>b. b\<lparr>b_total := b_total b + 1\<rparr>)
          = (\<lambda>b. \<lparr>b_total = b_total b + 1, b_completed = b_completed b\<rparr>)"
    by (rule ext) simp
  moreover obtain b0 where "map_of phases n = Some b0"
    using assms by blast
  ultimately show ?thesis
    by (simp add: count_in_phase_def Let_def map_entry_twice)
qed

lemma count_in_phase_sum:
  "sum_list (map (\<lambda>(k, b). b_total b) (count_in_phase n t phases))
     = sum_list (map (\<lambda>(k, b). b_total b) phases) + 1"
proof (cases "map_of phases n = None")
  case True
  then show ?thesis
    by (simp add: count_in_phase_new)
next
  case False
  then show ?thesis
    by (simp add: count_in_phase_old sum_map_entry)
qed

lemma count_in_phase_inv:
  assumes "\<forall>(k, b) \<in> set phases. 1 \<le> b_total b \<and> b_completed b \<le> b_total b"
  shows "\<forall>(k, b) \<in> set (count_in_phase n t phases). 1 \<le> b_total b \<and> b_completed b \<le> b_total b"
proof (cases "map_of phases n = None")
  case True
  then show ?thesis
    using assms by (auto simp: count_in_phase_new)
next
  case False
  have "1 \<le> b_total b \<and> b_completed b \<le> b_total b"
    if "(k, b) \<in> set (count_in_phase n t phases)" for k b
    using set_map_entry [OF that [unfolded count_in_phase_old [OF False]]] assms by auto
  then show ?thesis
    by auto
qed

lemma bucket_task_inv:
  assumes "\<forall>(k, b) \<in> set phases. 1 \<le> b_total b \<and> b_completed b \<le> b_total b"
  shows "\<forall>(k, b) \<in> set (bucket_task keys t phases). 1 \<le> b_total b \<and> b_completed b \<le> b_total b"
proof (induction keys)
  case Nil
  then show ?case
    using assms by simp
next
  case (Cons phase_num keys)
  show ?case
  proof (cases "contains (phase_marker phase_num) (dict_get (t_name t) [])
                 \<or> prefix (phase_marker phase_num) (dict_get (t_name t) [])")
    case True
    then have "bucket_task (phase_num # keys) t phases = count_in_phase phase_num t phases"
      by (simp add: Let_def)
    then show ?thesis
      using count_in_phase_inv [OF assms, of phase_num t] by simp
  next
    case False
    then have "bucket_task (phase_num # keys) t phases = bucket_task keys t phases"
      by (simp add: Let_def)
    then show ?thesis
      using Cons.IH by simp
  qed
qed

lemma bucket_tasks_inv:
  assumes "\<forall>(k, b) \<in> set phases. 1 \<le> b_total b \<and> b_completed b \<le> b_total b"
  shows "\<forall>(k, b) \<in> set (bucket_tasks keys tasks phases).
           1 \<le> b_total b \<and> b_completed b \<le> b_total b"
  using assms
proof (induction tasks arbitrary: phases)
  case Nil
  then show ?case by simp
next
  case (Cons t tasks)
  show ?case
    using Cons.IH [OF bucket_task_inv [OF Cons.prems, of keys t]] by simp
qed

lemma bucket_task_sum:
  "sum_list (map (\<lambda>(k, b). b_total b) (bucket_task keys t phases))
     = sum_list (map (\<lambda>(k, b). b_total b) phases)
       + (if \<exists>n \<in> set keys. contains (phase_marker n) (dict_get (t_name t) []) then 1 else 0)"
proof (induction keys)
  case Nil
  then show ?case by simp
next
  case (Cons phase_num keys)
  show ?case
  proof (cases "contains (phase_marker phase_num) (dict_get (t_name t) [])")
    case True
    then show ?thesis
      by (simp add: Let_def count_in_phase_sum)
  next
    case False
    then have "\<not> prefix (phase_marker phase_num) (dict_get (t_name t) [])"
      using prefix_contains by blast
    then show ?thesis
      using False Cons.IH by (simp add: Let_def)
  qed
qed

lemma name_task_done: "dict_get (t_name task_done) [] = ''PHASE 2: Survey''"
  by (simp add: task_done_def dict_get_def)

lemma name_task_review: "dict_get (t_name task_review) [] = ''Review PHASE 2: Survey''"
  by (simp add: task_review_def dict_get_def)

lemma name_task0: "dict_get (t_name task0) [] = ''PHASE 1: Kickoff''"
  by (simp add: task0_def dict_get_def)

lemma get_task_status_run:
  assumes "get_tasks_for_project w = Inr tasks"
  shows "get_task_status w phase_table =
     Inr (Some \<lparr>s_total = length tasks,
                s_completed = length (filter t_completed tasks),
                s_incomplete = length tasks - length (filter t_completed tasks),
                s_unassigned = length (filter (\<lambda>t. \<not> t_completed t \<and> t_assignee t = None) tasks),
                s_overdue = length (filter (is_overdue (today w)) tasks),
                s_percentage = percentage (length (filter t_completed tasks)) (length tasks),
                s_phases = map (\<lambda>(phase_num, data). (phase_num, with_percentage data))
                             (bucket_tasks (map fst phase_table) tasks [])\<rparr>)"
  using assms
  by (simp add: get_task_status_def get_task_status_try_def try_except_def Let_def)

lemma percentage_1_1: "percentage 1 1 = 100"
  by code_simp

lemma percentage_1_2: "percentage 1 2 = 50"
  by code_simp

text \<open>One task: only the bucket of the first key whose marker occurs in the name changes.\<close>

lemma bucket_task_first_match:
  "map_of (bucket_task keys t phases) k =
     (if find (\<lambda>phase_num. contains (phase_marker phase_num) (dict_get (t_name t) [])) keys
           = Some k
      then Some \<lparr>b_total = (case map_of phases k of None \<Rightarrow> 0 | Some b \<Rightarrow> b_total b) + 1,
                 b_completed = (case map_of phases k of None \<Rightarrow> 0 | Some b \<Rightarrow> b_completed b)
                                 + (if t_completed t then 1 else 0)\<rparr>
      else map_of phases k)"
proof (induction keys)
  case Nil
  then show ?case by simp
next
  case (Cons phase_num keys)
  show ?case
  proof (cases "contains (phase_marker phase_num) (dict_get (t_name t) [])")
    case True
    then show ?thesis
      by (simp add: Let_def map_of_count_in_phase)
  next
    case False
    then have "\<not> prefix (phase_marker phase_num) (dict_get (t_name t) [])"
      using prefix_contains by blast
    then show ?thesis
      using False Cons.IH by (simp add: Let_def)
  qed
qed

text \<open>The whole list: the bucket of a key counts the tasks whose first matching key it is.\<close>

lemma bucket_tasks_map_of:
  fixes keys :: "string list"
  defines "first_key \<equiv> \<lambda>t. find (\<lambda>phase_num.
             contains (phase_marker phase_num) (dict_get (t_name t) [])) keys"
  shows "map_of (bucket_tasks keys tasks phases) k =
     (let mine = filter (\<lambda>t. first_key t = Some k) tasks
      in if mine = [] then map_of phases k
         else Some \<lparr>b_total = (case map_of phases k of None \<Rightarrow> 0 | Some b \<Rightarrow> b_total b)
                                + length mine,
                    b_completed = (case map_of phases k of None \<Rightarrow> 0 | Some b \<Rightarrow> b_completed b)
                                    + length (filter t_completed mine)\<rparr>)"
proof (induction tasks arbitrary: phases)
  case Nil
  then show ?case by simp
next
  case (Cons t tasks)
  have step: "map_of (bucket_task keys t phases) k =
     (if first_key t = Some k
      then Some \<lparr>b_total = (case map_of phases k of None \<Rightarrow> 0 | Some b \<Rightarrow> b_total b) + 1,
                 b_completed = (case map_of phases k of None \<Rightarrow> 0 | Some b \<Rightarrow> b_completed b)
                                 + (if t_completed t then 1 else 0)\<rparr>
      else map_of phases k)"
    unfolding first_key_def by (rule bucket_task_first_match)
  show ?case
  proof (cases "first_key t = Some k")
    case True
    then show ?thesis
      using Cons.IH [of "bucket_task keys t phases"] step by (simp add: Let_def)
  next
    case False
    then show ?thesis
      using Cons.IH [of "bucket_task keys t phases"] step by (simp add: Let_def)
  qed
qed

lemma bucket_tasks_sum:
  "sum_list (map (\<lambda>(k, b). b_total b) (bucket_tasks keys tasks phases))
     = sum_list (map (\<lambda>(k, b). b_total b) phases)
       + length (filter (\<lambda>t. \<exists>n \<in> set keys.
                   contains (phase_marker n) (dict_get (t_name t) [])) tasks)"
proof (induction tasks arbitrary: phases)
  case Nil
  then show ?case by simp
next
  case (Cons t tasks)
  show ?case
    using Cons.IH [of "bucket_task keys t phases"] bucket_task_sum [of keys t phases]
    by simp
qed

lemma with_percentage_total:
  "sum_list (map (\<lambda>(k, d). p_total d)
     (map (\<lambda>(phase_num, data). (phase_num, with_percentage data)) buckets))
   = sum_list (map (\<lambda>(k, b). b_total b) buckets)"
  by (induction buckets) (auto simp: with_percentage_def)

lemma status_phases_run:
  assumes "get_tasks_for_project w = Inr tasks"
  shows "\<exists>st. get_task_status w phase_table = Inr (Some st)
     \<and> (\<forall>k. map_of (s_phases st) k =
          (let mine = filter (\<lambda>t. find (\<lambda>phase_num.
                        contains (phase_marker phase_num) (dict_get (t_name t) []))
                        (map fst phase_table) = Some k) tasks
           in if mine = [] then None
              else Some \<lparr>p_total = length mine,
                         p_completed = length (filter t_completed mine),
                         p_percentage = percentage (length (filter t_completed mine))
                                          (length mine)\<rparr>))
     \<and> sum_list (map (\<lambda>(k, d). p_total d) (s_phases st))
         = length (filter (\<lambda>t. \<exists>n \<in> set (map fst phase_table).
                     contains (phase_marker n) (dict_get (t_name t) [])) tasks)"
proof -
  let ?buckets = "bucket_tasks (map fst phase_table) tasks []"
  let ?st = "\<lparr>s_total = length tasks,
                s_completed = length (filter t_completed tasks),
                s_incomplete = length tasks - length (filter t_completed tasks),
                s_unassigned = length (filter (\<lambda>t. \<not> t_completed t \<and> t_assignee t = None) tasks),
                s_overdue = length (filter (is_overdue (today w)) tasks),
                s_percentage = percentage (length (filter t_completed tasks)) (length tasks),
                s_phases = map (\<lambda>(phase_num, data). (phase_num, with_percentage data))
                             ?buckets\<rparr>"
  have r: "get_task_status w phase_table = Inr (Some ?st)"
    by (rule get_task_status_run [OF assms])
  have m: "map_of (s_phases ?st) k =
          (let mine = filter (\<lambda>t. find (\<lambda>phase_num.
                        contains (phase_marker phase_num) (dict_get (t_name t) []))
                        (map fst phase_table) = Some k) tasks
           in if mine = [] then None
              else Some \<lparr>p_total = length mine,
                         p_completed = length (filter t_completed mine),
                         p_percentage = percentage (length (filter t_completed mine))
                                          (length mine)\<rparr>)" for k
    using bucket_tasks_map_of [of "map fst phase_table" tasks "[]" k]
    by (simp add: map_of_map Let_def with_percentage_def)
  have s: "sum_list (map (\<lambda>(k, d). p_total d) (s_phases ?st))
         = length (filter (\<lambda>t. \<exists>n \<in> set (map fst phase_table).
                     contains (phase_marker n) (dict_get (t_name t) [])) tasks)"
    using bucket_tasks_sum [of "map fst phase_table" tasks "[]"]
      with_percentage_total [of ?buckets]
    by simp
  show ?thesis
    using r m s by blast
qed

text \<open>
  Claim C6. A task changes at most one phase bucket: the bucket of the first key of the
  phase table, in the table's order, whose marker \<^verbatim>\<open>PHASE <n>:\<close> occurs in the task's name.
  That bucket's total goes up by one and its completed count by one for a completed task
  (a missing bucket counts from zero); every other bucket stays as it was, and a task that
  matches no key changes nothing. Over all buckets the totals grow by exactly one for a
  task that matches some key and by nothing otherwise. So in the status that
  \<^verbatim>\<open>get_task_status\<close> returns for a fetched list, the bucket of a key counts exactly the
  tasks of the list whose first matching key it is, and the completed ones among them; a
  key that is the first match of no task has no bucket, and the totals of all buckets add
  up to the number of tasks that match some key.
\<close>

theorem task_in_at_most_one_bucket:
  "map_of (bucket_task keys t phases) k =
     (if find (\<lambda>phase_num. contains (phase_marker phase_num) (dict_get (t_name t) [])) keys
           = Some k
      then Some \<lparr>b_total = (case map_of phases k of None \<Rightarrow> 0 | Some b \<Rightarrow> b_total b) + 1,
                 b_completed = (case map_of phases k of None \<Rightarrow> 0 | Some b \<Rightarrow> b_completed b)
                                 + (if t_completed t then 1 else 0)\<rparr>
      else map_of phases k)
   \<and> sum_list (map (\<lambda>(k, b). b_total b) (bucket_task keys t phases))
       = sum_list (map (\<lambda>(k, b). b_total b) phases)
         + (if \<exists>n \<in> set keys. contains (phase_marker n) (dict_get (t_name t) []) then 1 else 0)
   \<and> (get_tasks_for_project w = Inr tasks \<longrightarrow>
        (\<exists>st. get_task_status w phase_table = Inr (Some st)
           \<and> (\<forall>k. map_of (s_phases st) k =
                (let mine = filter (\<lambda>t. find (\<lambda>phase_num.
                              contains (phase_marker phase_num) (dict_get (t_name t) []))
                              (map fst phase_table) = Some k) tasks
                 in if mine = [] then None
                    else Some \<lparr>p_total = length mine,
                               p_completed = length (filter t_completed mine),
                               p_percentage = percentage (length (filter t_completed mine))
                                                (length mine)\<rparr>))
           \<and> sum_list (map (\<lambda>(k, d). p_total d) (s_phases st))
               = length (filter (\<lambda>t. \<exists>n \<in> set (map fst phase_table).
                           contains (phase_marker n) (dict_get (t_name t) [])) tasks)))"
proof -
  have c: "get_tasks_for_project w = Inr tasks \<longrightarrow>
        (\<exists>st. get_task_status w phase_table = Inr (Some st)
           \<and> (\<forall>k. map_of (s_phases st) k =
                (let mine = filter (\<lambda>t. find (\<lambda>phase_num.
                              contains (phase_marker phase_num) (dict_get (t_name t) []))
                              (map fst phase_table) = Some k) tasks
                 in if mine = [] then None
                    else Some \<lparr>p_total = length mine,
                               p_completed = length (filter t_completed mine),
                               p_percentage = percentage (length (filter t_completed mine))
                                                (length mine)\<rparr>))
           \<and> sum_list (map (\<lambda>(k, d). p_total d) (s_phases st))
               = length (filter (\<lambda>t. \<exists>n \<in> set (map fst phase_table).
                           contains (phase_marker n) (dict_get (t_name t) [])) tasks))"
    by (intro impI) (rule status_phases_run)
  show ?thesis
    apply (rule conjI, rule bucket_task_first_match)
    apply (rule conjI, rule bucket_task_sum)
    apply (rule c)
    done
qed

theorem task_in_at_most_one_bucket_witness:
  "map_of (bucket_task [''1'', ''2''] task_review
             [(''2'', \<lparr>b_total = 4, b_completed = 3\<rparr>)]) ''2''
     = Some \<lparr>b_total = 5, b_completed = 3\<rparr>
   \<and> map_of (bucket_task [''1'', ''2''] task_review
               [(''2'', \<lparr>b_total = 4, b_completed = 3\<rparr>)]) ''1'' = None
   \<and> sum_list (map (\<lambda>(k, b). b_total b)
        (bucket_task [''1'', ''2''] task_review [(''2'', \<lparr>b_total = 4, b_completed = 3\<rparr>)])) = 5
   \<and> (\<exists>st. get_task_status world_mixed phases_12 = Inr (Some st)
         \<and> map_of (s_phases st) ''1''
             = Some \<lparr>p_total = 1, p_completed = 1, p_percentage = 100\<rparr>
         \<and> map_of (s_phases st) ''2''
             = Some \<lparr>p_total = 2, p_completed = 1, p_percentage = 50\<rparr>
         \<and> map_of (s_phases st) ''3'' = None
         \<and> sum_list (map (\<lambda>(k, d). p_total d) (s_phases st)) = 3)"
proof -
  note t1 = task_in_at_most_one_bucket
      [where keys = "[''1'', ''2'']" and t = task_review
        and phases = "[(''2'', \<lparr>b_total = 4, b_completed = 3\<rparr>)]"
        and w = world_mixed and phase_table = phases_12
        and tasks = "[task_both, task_none, task_done, task_review]"]
  have c1: "\<not> contains (phase_marker ''1'') ''Review PHASE 2: Survey''"
    by (simp add: phase_marker_def)
  have c2: "contains (phase_marker ''2'') ''Review PHASE 2: Survey''"
    by (simp add: phase_marker_def)
  have o: "\<not> t_completed task_review" "t_completed task_done" "t_completed task_both"
    "\<not> t_completed task_none"
    by (simp_all add: task_review_def task_done_def task_both_def task_none_def)
  have a2: "map_of (bucket_task [''1'', ''2''] task_review
             [(''2'', \<lparr>b_total = 4, b_completed = 3\<rparr>)]) ''2''
     = Some \<lparr>b_total = 5, b_completed = 3\<rparr>"
    using t1 [where k = "''2''", THEN conjunct1] c1 c2 o by (simp add: name_task_review)
  have a1: "map_of (bucket_task [''1'', ''2''] task_review
               [(''2'', \<lparr>b_total = 4, b_completed = 3\<rparr>)]) ''1'' = None"
    using t1 [where k = "''1''", THEN conjunct1] c1 c2 o by (simp add: name_task_review)
  have a3: "sum_list (map (\<lambda>(k, b). b_total b)
        (bucket_task [''1'', ''2''] task_review [(''2'', \<lparr>b_total = 4, b_completed = 3\<rparr>)])) = 5"
    using t1 [where k = "''1''", THEN conjunct2, THEN conjunct1] c1 c2
    by (simp add: name_task_review)
  have f: "get_tasks_for_project world_mixed = Inr [task_both, task_none, task_done, task_review]"
    by (simp add: world_mixed_def)
  have keys: "map fst phases_12 = [''1'', ''2'']"
    by (simp add: phases_12_def)
  have nb: "dict_get (t_name task_both) [] = ''PHASE 2: hand over to PHASE 1: Plan''"
    and nn: "dict_get (t_name task_none) [] = ''Kickoff meeting''"
    by (simp_all add: task_both_def task_none_def dict_get_def)
  have m: "contains (phase_marker ''1'') (dict_get (t_name task_both) [])"
    "contains (phase_marker ''2'') (dict_get (t_name task_both) [])"
    "\<not> contains (phase_marker ''1'') (dict_get (t_name task_none) [])"
    "\<not> contains (phase_marker ''2'') (dict_get (t_name task_none) [])"
    "\<not> contains (phase_marker ''1'') (dict_get (t_name task_done) [])"
    "contains (phase_marker ''2'') (dict_get (t_name task_done) [])"
    "\<not> contains (phase_marker ''1'') (dict_get (t_name task_review) [])"
    "contains (phase_marker ''2'') (dict_get (t_name task_review) [])"
    by (simp_all add: nb nn name_task_done name_task_review phase_marker_def)
  obtain st where st: "get_task_status world_mixed phases_12 = Inr (Some st)"
    and mp: "\<And>k. map_of (s_phases st) k =
                (let mine = filter (\<lambda>t. find (\<lambda>phase_num.
                              contains (phase_marker phase_num) (dict_get (t_name t) []))
                              [''1'', ''2''] = Some k)
                              [task_both, task_none, task_done, task_review]
                 in if mine = [] then None
                    else Some \<lparr>p_total = length mine,
                               p_completed = length (filter t_completed mine),
                               p_percentage = percentage (length (filter t_completed mine))
                                                (length mine)\<rparr>)"
    and sm: "sum_list (map (\<lambda>(k, d). p_total d) (s_phases st))
               = length (filter (\<lambda>t. \<exists>n \<in> set [''1'', ''2''].
                           contains (phase_marker n) (dict_get (t_name t) []))
                           [task_both, task_none, task_done, task_review])"
    using t1 [where k = "''1''", THEN conjunct2, THEN conjunct2, rule_format, OF f]
    unfolding keys by blast
  have b1: "map_of (s_phases st) ''1'' = Some \<lparr>p_total = 1, p_completed = 1, p_percentage = 100\<rparr>"
    using percentage_1_1 by (simp add: mp m o del: contains.simps)
  have b2: "map_of (s_phases st) ''2'' = Some \<lparr>p_total = 2, p_completed = 1, p_percentage = 50\<rparr>"
    using percentage_1_2 by (simp add: mp m o numeral_2_eq_2 del: contains.simps)
  have b3: "map_of (s_phases st) ''3'' = None"
    by (simp add: mp m del: contains.simps)
  have b4: "sum_list (map (\<lambda>(k, d). p_total d) (s_phases st)) = 3"
    by (simp add: sm m del: contains.simps)
  have b: "\<exists>st. get_task_status world_mixed phases_12 = Inr (Some st)
         \<and> map_of (s_phases st) ''1''
             = Some \<lparr>p_total = 1, p_completed = 1, p_percentage = 100\<rparr>
         \<and> map_of (s_phases st) ''2''
             = Some \<lparr>p_total = 2, p_completed = 1, p_percentage = 50\<rparr>
         \<and> map_of (s_phases st) ''3'' = None
         \<and> sum_list (map (\<lambda>(k, d). p_total d) (s_phases st)) = 3"
    using st b1 b2 b3 b4 by blast
  show ?thesis
    apply (rule conjI, rule a2)
    apply (rule conjI, rule a1)
    apply (rule conjI, rule a3)
    apply (rule b)
    done
qed

text \<open>
  Claim C1. For every fetched task list the status has total equal to the number of tasks,
  completed equal to the number of tasks whose completion flag is set, incomplete equal to
  total minus completed (so that completed and incomplete add up to total), and the
  percentage 0 for an empty list and otherwise \<^verbatim>\<open>round((completed / total) * 100, 1)\<close>, a
  float between 0 and 100.
\<close>

theorem status_counts:
  assumes "get_tasks_for_project w = Inr tasks"
  shows "\<exists>st. get_task_status w phase_table = Inr (Some st)
     \<and> s_total st = length tasks
     \<and> s_completed st = length (filter t_completed tasks)
     \<and> s_incomplete st = s_total st - s_completed st
     \<and> s_completed st + s_incomplete st = s_total st
     \<and> s_percentage st =
         (if s_total st = 0 then 0
          else py_round (float_mul (true_div (s_completed st) (s_total st)) 100) 1)
     \<and> 0 \<le> s_percentage st \<and> s_percentage st \<le> 100"
proof -
  have le: "length (filter t_completed tasks) \<le> length tasks"
    by simp
  show ?thesis
    using get_task_status_run [OF assms, of phase_table] percentage_bounds [OF le] le
    by (simp add: percentage_def)
qed

theorem status_counts_witness:
  "\<exists>st. get_task_status world_ten phases_12 = Inr (Some st)
     \<and> s_total st = 10 \<and> s_completed st = 4 \<and> s_incomplete st = 6 \<and> s_percentage st = 40"
proof -
  have f: "get_tasks_for_project world_ten = Inr (replicate 4 task_done @ replicate 6 task0)"
    by (simp add: world_ten_def)
  have c: "t_completed task_done" "\<not> t_completed task0"
    by (simp_all add: task_done_def task0_def)
  have n: "length (filter t_completed (replicate 4 task_done @ replicate 6 task0)) = 4"
    using c by simp
  have p: "py_round (float_mul (true_div 4 10) 100) 1 = 40"
    using percentage_4_10 by (simp add: percentage_def)
  show ?thesis
    using status_counts [OF f, of phases_12] n p by auto
qed

text \<open>
  Claim C10. In every status that \<^verbatim>\<open>get_task_status\<close> returns, each phase bucket has a total
  of at least 1 and a completed count of at most its total, so its percentage is
  \<^verbatim>\<open>round((completed / total) * 100, 1)\<close>, taken with a non-zero divisor, and lies between 0
  and 100.
\<close>

theorem phase_buckets_well_formed:
  assumes "get_task_status w phase_table = Inr (Some st)"
  shows "\<forall>(phase_num, data) \<in> set (s_phases st).
           1 \<le> p_total data \<and> p_completed data \<le> p_total data
           \<and> p_percentage data
               = py_round (float_mul (true_div (p_completed data) (p_total data)) 100) 1
           \<and> 0 \<le> p_percentage data \<and> p_percentage data \<le> 100"
proof (cases "get_tasks_for_project w")
  case (Inl e)
  then show ?thesis
    using assms get_task_status_fetch_error [of w e phase_table] by simp
next
  case (Inr tasks)
  let ?buckets = "bucket_tasks (map fst phase_table) tasks []"
  have st: "s_phases st = map (\<lambda>(phase_num, data). (phase_num, with_percentage data)) ?buckets"
    using assms get_task_status_run [OF Inr, of phase_table] by auto
  have inv: "\<forall>(k, b) \<in> set ?buckets. 1 \<le> b_total b \<and> b_completed b \<le> b_total b"
    by (rule bucket_tasks_inv) simp
  have "1 \<le> p_total (with_percentage b) \<and> p_completed (with_percentage b) \<le> p_total (with_percentage b)
        \<and> p_percentage (with_percentage b)
            = py_round (float_mul (true_div (p_completed (with_percentage b))
                (p_total (with_percentage b))) 100) 1
        \<and> 0 \<le> p_percentage (with_percentage b) \<and> p_percentage (with_percentage b) \<le> 100"
    if "(k, b) \<in> set ?buckets" for k b
  proof -
    have b: "1 \<le> b_total b" "b_completed b \<le> b_total b"
      using inv that by auto
    show ?thesis
      using b percentage_bounds [OF b(2)] by (simp add: with_percentage_def percentage_def)
  qed
  then show ?thesis
    by (auto simp: st)
qed

theorem phase_buckets_well_formed_witness:
  "s_phases (the (projr (get_task_status world_phase2 phases_12)))
     = [(''2'', \<lparr>p_total = 5, p_completed = 3, p_percentage = 60\<rparr>),
        (''1'', \<lparr>p_total = 1, p_completed = 0, p_percentage = 0\<rparr>)]
   \<and> (1::nat) \<le> 5 \<and> (3::nat) \<le> 5
   \<and> py_round (float_mul (true_div 3 5) 100) 1 = 60"
proof -
  have f: "get_tasks_for_project world_phase2
             = Inr [task_done, task_review, task0, task_done, task_review, task_done]"
    by (simp add: world_phase2_def)
  have c: "t_completed task_done" "\<not> t_completed task_review" "\<not> t_completed task0"
    by (simp_all add: task_done_def task_review_def task0_def)
  have m: "\<not> contains (phase_marker ''1'') ''Review PHASE 2: Survey''"
    "contains (phase_marker ''2'') ''Review PHASE 2: Survey''"
    "\<not> contains (phase_marker ''1'') ''PHASE 2: Survey''"
    "contains (phase_marker ''2'') ''PHASE 2: Survey''"
    "contains (phase_marker ''1'') ''PHASE 1: Kickoff''"
    by (simp_all add: phase_marker_def)
  have b: "bucket_tasks (map fst phases_12)
             [task_done, task_review, task0, task_done, task_review, task_done] []
           = [(''2'', \<lparr>b_total = 5, b_completed = 3\<rparr>), (''1'', \<lparr>b_total = 1, b_completed = 0\<rparr>)]"
    using m c
    by (simp add: phases_12_def name_task_done name_task_review name_task0 Let_def
        count_in_phase_def)
  have s: "s_phases (the (projr (get_task_status world_phase2 phases_12)))
     = [(''2'', \<lparr>p_total = 5, p_completed = 3, p_percentage = 60\<rparr>),
        (''1'', \<lparr>p_total = 1, p_completed = 0, p_percentage = 0\<rparr>)]"
    using percentage_0_1
    by (simp only: get_task_status_run [OF f] b)
      (simp add: with_percentage_def percentage_3_5)
  obtain st where st: "get_task_status world_phase2 phases_12 = Inr (Some st)"
    using get_task_status_run [OF f, of phases_12] by blast
  have "py_round (float_mul (true_div 3 5) 100) 1 = 60"
    using phase_buckets_well_formed [OF st] s by (simp add: st)
  then show ?thesis
    using s by simp
qed

section \<open>Phase parser\<close>


















subsection \<open>Documents of well-formed headings\<close>










subsection \<open>The loop over the matches\<close>








text \<open>
  The scan goes on after the closing parenthesis of a match, so a heading text that stands
  inside an earlier match (here inside a timeline that runs over the end of its line) is
  part of that match and gives no match of its own.
\<close>

lemma heading_inside_earlier_match:
  "findall (''PHASE 1: Plan (see'' @ nl @ ''PHASE 2: Build (Week 3)'')
     = [(''1'', ''Plan'', ''see'' @ nl @ ''PHASE 2: Build (Week 3'')]"
  by code_simp




end
